theory Spec2Isabelle
  imports Complex_Main
begin

section \<open>Dense vectors and matrices\<close>

text \<open>
  Variable indices are unsigned integers. Vectors and matrices are Eigen's dense
  \<^verbatim>\<open>Vector\<close> and \<^verbatim>\<open>Matrix\<close> of doubles; the model keeps a matrix as the list of its rows
  and computes over the reals. Eigen asserts the bounds of every block expression, the
  standard library's \<^verbatim>\<open>at\<close> throws \<^verbatim>\<open>std::out_of_range\<close>: both are error values here.
\<close>

type_synonym Index = nat
type_synonym Vector = "real list"
type_synonym Matrix = "real list list"

datatype error =
    OutOfRange
  | EigenAssert
  | AssertionFailed
  | InvalidArgument
  | RuntimeError
  | IndeterminantLinearSystem

definition ebind :: "error + 'a \<Rightarrow> ('a \<Rightarrow> error + 'b) \<Rightarrow> error + 'b" where
  "ebind m f = (case m of Inl e \<Rightarrow> Inl e | Inr v \<Rightarrow> f v)"

text \<open>\<^verbatim>\<open>std::vector::at\<close> and \<^verbatim>\<open>VectorValuesOrdered::at\<close>: a checked read.\<close>

definition at_v :: "'a list \<Rightarrow> nat \<Rightarrow> error + 'a" where
  "at_v xs i = (if i < length xs then Inr (xs ! i) else Inl OutOfRange)"

text \<open>\<^verbatim>\<open>Matrix::Zero(r, c)\<close> and \<^verbatim>\<open>zero(n)\<close>.\<close>

definition Zero :: "nat \<Rightarrow> nat \<Rightarrow> Matrix" where
  "Zero r c = replicate r (replicate c 0)"

definition zero :: "nat \<Rightarrow> Vector" where
  "zero n = replicate n 0"

text \<open>\<^verbatim>\<open>M.block(r, c, h, w)\<close>, read: the \<open>h\<close> rows from \<open>r\<close>, the \<open>w\<close> columns from \<open>c\<close>.\<close>

definition block :: "Matrix \<Rightarrow> nat \<Rightarrow> nat \<Rightarrow> nat \<Rightarrow> nat \<Rightarrow> error + Matrix" where
  "block M r c h w =
     (if r + h \<le> length M \<and> list_all (\<lambda>row. c + w \<le> length row) M
      then Inr (map (\<lambda>row. take w (drop c row)) (take h (drop r M)))
      else Inl EigenAssert)"

text \<open>\<^verbatim>\<open>M.leftCols(w)\<close>, \<^verbatim>\<open>M.middleCols(c, w)\<close> and \<^verbatim>\<open>M.middleRows(r, h)\<close>.\<close>

definition leftCols :: "Matrix \<Rightarrow> nat \<Rightarrow> error + Matrix" where
  "leftCols M w = block M 0 0 (length M) w"

definition middleCols :: "Matrix \<Rightarrow> nat \<Rightarrow> nat \<Rightarrow> error + Matrix" where
  "middleCols M c w = block M 0 c (length M) w"

definition middleRows :: "Matrix \<Rightarrow> nat \<Rightarrow> nat \<Rightarrow> error + Matrix" where
  "middleRows M r h =
     (if r + h \<le> length M then Inr (take h (drop r M)) else Inl EigenAssert)"

text \<open>\<^verbatim>\<open>v.segment(i, n)\<close>, read and written.\<close>

definition segment :: "Vector \<Rightarrow> nat \<Rightarrow> nat \<Rightarrow> error + Vector" where
  "segment v i n = (if i + n \<le> length v then Inr (take n (drop i v)) else Inl EigenAssert)"

definition set_segment :: "Vector \<Rightarrow> nat \<Rightarrow> Vector \<Rightarrow> error + Vector" where
  "set_segment v i w =
     (if i + length w \<le> length v
      then Inr (take i v @ w @ drop (i + length w) v)
      else Inl EigenAssert)"

text \<open>
  \<^verbatim>\<open>M.block(r, c, h, w) = B\<close>, written: \<open>B\<close> has \<open>h\<close> rows of \<open>w\<close> entries and replaces
  the entries of \<open>M\<close> from row \<open>r\<close> and column \<open>c\<close>.
\<close>

definition set_block :: "Matrix \<Rightarrow> nat \<Rightarrow> nat \<Rightarrow> nat \<Rightarrow> nat \<Rightarrow> Matrix \<Rightarrow> error + Matrix" where
  "set_block M r c h w B =
     (if r + h \<le> length M \<and> list_all (\<lambda>row. c + w \<le> length row) M
         \<and> length B = h \<and> list_all (\<lambda>row. length row = w) B
      then Inr (take r M
                @ map2 (\<lambda>row brow. take c row @ brow @ drop (c + w) row) (take h (drop r M)) B
                @ drop (r + h) M)
      else Inl EigenAssert)"

text \<open>The product of a matrix and a vector, and the difference of two vectors.\<close>

definition dot :: "Vector \<Rightarrow> Vector \<Rightarrow> real" where
  "dot u v = sum_list (map2 (*) u v)"

definition mat_vec :: "Matrix \<Rightarrow> Vector \<Rightarrow> error + Vector" where
  "mat_vec M v =
     (if list_all (\<lambda>row. length row = length v) M
      then Inr (map (\<lambda>row. dot row v) M)
      else Inl EigenAssert)"

definition vec_sub :: "Vector \<Rightarrow> Vector \<Rightarrow> error + Vector" where
  "vec_sub u v = (if length u = length v then Inr (map2 (-) u v) else Inl EigenAssert)"

definition column :: "Vector \<Rightarrow> Matrix" where
  "column v = map (\<lambda>x. [x]) v"

definition col_of :: "Matrix \<Rightarrow> Vector" where
  "col_of M = map (\<lambda>row. case row of [] \<Rightarrow> 0 | x # _ \<Rightarrow> x) M"

text \<open>\<^verbatim>\<open>M.block(r, c, h, 1) -= X * v\<close>: the column \<open>c\<close> of the rows from \<open>r\<close> loses \<open>X v\<close>.\<close>

definition sub_from_column :: "Matrix \<Rightarrow> nat \<Rightarrow> nat \<Rightarrow> nat \<Rightarrow> Matrix \<Rightarrow> Vector \<Rightarrow> error + Matrix" where
  "sub_from_column M r c h X v =
     ebind (block M r c h 1) (\<lambda>old.
     ebind (mat_vec X v) (\<lambda>p.
     ebind (vec_sub (col_of old) p) (\<lambda>new.
       set_block M r c h 1 (column new))))"

section \<open>Gaussian conditionals\<close>

text \<open>
  Modelled from the spec: the class \<^verbatim>\<open>GaussianConditionalOrdered\<close> is not under src/, only
  its uses are. A conditional owns its keys (the frontal variables, then the parents), the
  number of frontals, the block matrix \<^verbatim>\<open>rsd_\<close> = \<open>[R | S_1 ... S_k | d]\<close> with one block
  width per key and a last block of width 1, and the vector of sigmas.
\<close>

record GaussianConditionalOrdered =
  keys :: "Index list"
  nrFrontals :: nat
  rsd_dims :: "nat list"
  rsd :: Matrix
  sigmas :: Vector

definition frontals :: "GaussianConditionalOrdered \<Rightarrow> Index list" where
  "frontals c = take (nrFrontals c) (keys c)"

definition parents :: "GaussianConditionalOrdered \<Rightarrow> Index list" where
  "parents c = drop (nrFrontals c) (keys c)"

text \<open>\<^verbatim>\<open>dim(it)\<close>: the width of the block of the key at position \<open>p\<close>.\<close>

definition dim :: "GaussianConditionalOrdered \<Rightarrow> nat \<Rightarrow> nat" where
  "dim c p = (if p < length (rsd_dims c) then rsd_dims c ! p else 0)"

definition block_offset :: "GaussianConditionalOrdered \<Rightarrow> nat \<Rightarrow> nat" where
  "block_offset c p = sum_list (take p (rsd_dims c))"

definition get_R :: "GaussianConditionalOrdered \<Rightarrow> Matrix" where
  "get_R c = map (\<lambda>row. take (block_offset c (nrFrontals c)) row) (rsd c)"

definition get_S :: "GaussianConditionalOrdered \<Rightarrow> nat \<Rightarrow> Matrix" where
  "get_S c p = map (\<lambda>row. take (dim c p) (drop (block_offset c p) row)) (rsd c)"

definition get_d :: "GaussianConditionalOrdered \<Rightarrow> Vector" where
  "get_d c = col_of (map (\<lambda>row. drop (block_offset c (length (keys c))) row) (rsd c))"

definition get_sigmas :: "GaussianConditionalOrdered \<Rightarrow> Vector" where
  "get_sigmas c = sigmas c"

definition R_cols :: "GaussianConditionalOrdered \<Rightarrow> nat" where
  "R_cols c = block_offset c (nrFrontals c)"

text \<open>
  A \<^verbatim>\<open>shared_ptr\<close> is null or points to an object: the model keeps the address with the
  object pointed to, so that two pointers are equal exactly when they are the same object.
\<close>

datatype 'a shared_ptr = Null | Ptr nat 'a

type_synonym VectorValuesOrdered = "Vector list"

section \<open>conditionDensity\<close>

text \<open>The local variables of the first two loops of \<^verbatim>\<open>conditionDensity\<close>.\<close>

record collected =
  newTotalRows :: nat
  newTotalCols :: nat
  newNrFrontals :: nat
  oldOffset :: nat
  newDims :: "nat list"
  oldDims :: "nat list"
  oldColOffsets :: "nat list"
  newIndices :: "Index list"
  newIdxToOldIdx :: "nat list"
  oldIdx :: nat

definition collect_init :: collected where
  "collect_init = \<lparr> newTotalRows = 0, newTotalCols = 1, newNrFrontals = 0, oldOffset = 0,
      newDims = [], oldDims = [], oldColOffsets = [], newIndices = [],
      newIdxToOldIdx = [], oldIdx = 0 \<rparr>"

text \<open>One turn of the loop over the frontals: \<open>k\<close> is the key, \<open>varDim\<close> its dimension.\<close>

definition collect_frontal :: "Index set \<Rightarrow> collected \<Rightarrow> Index \<times> nat \<Rightarrow> collected" where
  "collect_frontal frontalsToRemove s kv =
     (let k = fst kv; varDim = snd kv;
          s1 = s\<lparr> oldDims := oldDims s @ [varDim] \<rparr>;
          s2 = (if k \<notin> frontalsToRemove
                then s1\<lparr> newTotalCols := newTotalCols s1 + varDim,
                         newTotalRows := newTotalRows s1 + varDim,
                         newDims := newDims s1 @ [varDim],
                         newIndices := newIndices s1 @ [k],
                         newNrFrontals := newNrFrontals s1 + 1,
                         newIdxToOldIdx := newIdxToOldIdx s1 @ [oldIdx s1],
                         oldColOffsets := oldColOffsets s1 @ [oldOffset s1] \<rparr>
                else s1)
      in s2\<lparr> oldOffset := oldOffset s2 + varDim, oldIdx := oldIdx s2 + 1 \<rparr>)"

text \<open>One turn of the loop over the parents.\<close>

definition collect_parent :: "Index set \<Rightarrow> collected \<Rightarrow> Index \<times> nat \<Rightarrow> collected" where
  "collect_parent parentsToRemove s kv =
     (let k = fst kv; varDim = snd kv;
          s1 = s\<lparr> oldDims := oldDims s @ [varDim] \<rparr>
      in if k \<notin> parentsToRemove
         then s1\<lparr> newTotalCols := newTotalCols s1 + varDim,
                  newDims := newDims s1 @ [varDim],
                  newIndices := newIndices s1 @ [k] \<rparr>
         else s1)"

text \<open>The keys of a conditional with their positions and dimensions.\<close>

definition frontal_vars :: "GaussianConditionalOrdered \<Rightarrow> (Index \<times> nat) list" where
  "frontal_vars c = map (\<lambda>p. (keys c ! p, dim c p)) [0 ..< length (frontals c)]"

definition parent_vars :: "GaussianConditionalOrdered \<Rightarrow> (nat \<times> Index \<times> nat) list" where
  "parent_vars c =
     map (\<lambda>p. (p, keys c ! p, dim c p)) [length (frontals c) ..< length (keys c)]"

definition collect :: "GaussianConditionalOrdered \<Rightarrow> Index set \<Rightarrow> Index set \<Rightarrow> collected" where
  "collect c frontalsToRemove parentsToRemove =
     (let s1 = foldl (collect_frontal frontalsToRemove) collect_init (frontal_vars c);
          s2 = foldl (collect_parent parentsToRemove) s1 (map snd (parent_vars c))
      in s2\<lparr> newDims := newDims s2 @ [1] \<rparr>)"

text \<open>
  The matrix being filled and the two column counters of one row block:
  the inner loop over the later frontals of the old conditional.
\<close>

record filling =
  full_matrix :: Matrix
  newParentStartCol :: nat
  oldParentStartCol :: nat

definition fill_from_R ::
  "Index set \<Rightarrow> VectorValuesOrdered \<Rightarrow> Matrix \<Rightarrow> nat \<Rightarrow> nat \<Rightarrow> nat
     \<Rightarrow> filling \<Rightarrow> Index \<times> nat \<Rightarrow> error + filling" where
  "fill_from_R frontalsToRemove solution rblock newColOffset dm lastCol f kv =
     (let parentKey = fst kv; parentDim = snd kv in
      ebind (if parentKey \<notin> frontalsToRemove
             then ebind (middleCols rblock (oldParentStartCol f) parentDim) (\<lambda>B.
                  ebind (set_block (full_matrix f) newColOffset (newParentStartCol f)
                           dm parentDim B) (\<lambda>M.
                    Inr (f\<lparr> full_matrix := M,
                           newParentStartCol := newParentStartCol f + parentDim \<rparr>)))
             else ebind (at_v solution parentKey) (\<lambda>parentSol.
                  ebind (middleCols rblock (oldParentStartCol f) parentDim) (\<lambda>B.
                  ebind (sub_from_column (full_matrix f) newColOffset lastCol dm B parentSol)
                    (\<lambda>M. Inr (f\<lparr> full_matrix := M \<rparr>)))))
        (\<lambda>f'. Inr (f'\<lparr> oldParentStartCol := oldParentStartCol f' + parentDim \<rparr>)))"

text \<open>
  The inner loop over the parents of the old conditional. The source does not advance
  \<^verbatim>\<open>newParentStartCol\<close> here, and neither does the model.
\<close>

definition fill_from_S ::
  "GaussianConditionalOrdered \<Rightarrow> Index set \<Rightarrow> VectorValuesOrdered \<Rightarrow> nat \<Rightarrow> nat \<Rightarrow> nat
     \<Rightarrow> nat \<Rightarrow> filling \<Rightarrow> nat \<times> Index \<times> nat \<Rightarrow> error + filling" where
  "fill_from_S c parentsToRemove solution oldColOffset newColOffset dm lastCol f pkv =
     (let p = fst pkv; parentKey = fst (snd pkv); parentDim = snd (snd pkv) in
      if parentKey \<in> parentsToRemove
      then ebind (at_v solution parentKey) (\<lambda>parentSol.
           if length parentSol \<noteq> parentDim then Inl AssertionFailed
           else ebind (middleRows (get_S c p) oldColOffset dm) (\<lambda>B.
                ebind (sub_from_column (full_matrix f) newColOffset lastCol dm B parentSol)
                  (\<lambda>M. Inr (f\<lparr> full_matrix := M \<rparr>))))
      else ebind (middleRows (get_S c p) oldColOffset dm) (\<lambda>B.
           ebind (set_block (full_matrix f) newColOffset (newParentStartCol f) dm parentDim B)
             (\<lambda>M. Inr (f\<lparr> full_matrix := M \<rparr>))))"

text \<open>A loop whose body may fail: the first error ends it.\<close>

fun efoldl :: "('s \<Rightarrow> 'a \<Rightarrow> error + 's) \<Rightarrow> 's \<Rightarrow> 'a list \<Rightarrow> error + 's" where
  "efoldl f s [] = Inr s"
| "efoldl f s (x # xs) = (case f s x of Inl e \<Rightarrow> Inl e | Inr s' \<Rightarrow> efoldl f s' xs)"

text \<open>The state of the outer loop over the frontals that are kept.\<close>

record outer =
  out_matrix :: Matrix
  out_sigmas :: Vector
  newColOffset :: nat

definition fill_frontal ::
  "GaussianConditionalOrdered \<Rightarrow> Index set \<Rightarrow> Index set \<Rightarrow> VectorValuesOrdered
     \<Rightarrow> collected \<Rightarrow> outer \<Rightarrow> nat \<Rightarrow> error + outer" where
  "fill_frontal c frontalsToRemove parentsToRemove solution s out newfrontalIdx =
     ebind (at_v (newDims s) newfrontalIdx) (\<lambda>dm.
     ebind (at_v (oldColOffsets s) newfrontalIdx) (\<lambda>oldColOffset.
     ebind (block (get_R c) oldColOffset oldColOffset dm (R_cols c - oldColOffset)) (\<lambda>rblock.
     ebind (leftCols rblock dm) (\<lambda>Rkk.
     ebind (set_block (out_matrix out) (newColOffset out) (newColOffset out) dm dm Rkk) (\<lambda>M1.
     ebind (segment (get_d c) oldColOffset dm) (\<lambda>dseg.
     ebind (set_block M1 (newColOffset out) (newTotalCols s - 1) dm 1 (column dseg)) (\<lambda>M2.
     ebind (segment (get_sigmas c) oldColOffset dm) (\<lambda>sseg.
     ebind (set_segment (out_sigmas out) (newColOffset out) sseg) (\<lambda>sig.
     ebind (efoldl
              (fill_from_R frontalsToRemove solution rblock (newColOffset out) dm
                 (newTotalCols s - 1))
              \<lparr> full_matrix = M2, newParentStartCol = newColOffset out + dm,
                oldParentStartCol = dm \<rparr>
              (drop (newIdxToOldIdx s ! newfrontalIdx + 1) (frontal_vars c))) (\<lambda>f1.
     ebind (efoldl
              (fill_from_S c parentsToRemove solution oldColOffset (newColOffset out) dm
                 (newTotalCols s - 1))
              f1 (parent_vars c)) (\<lambda>f2.
       Inr \<lparr> out_matrix = full_matrix f2, out_sigmas = sig,
             newColOffset = newColOffset out + dm \<rparr>)))))))))))"

text \<open>
  \<^verbatim>\<open>conditionDensity(initConditional, saved_indices, solution)\<close>. The address \<open>fresh\<close> is the
  one the allocator gives to the conditional built at the end.
\<close>

definition conditionDensity ::
  "nat \<Rightarrow> GaussianConditionalOrdered shared_ptr \<Rightarrow> Index set \<Rightarrow> VectorValuesOrdered
     \<Rightarrow> error + GaussianConditionalOrdered shared_ptr" where
  "conditionDensity fresh initConditional saved_indices solution =
     (case initConditional of
        Null \<Rightarrow> Inr initConditional
      | Ptr a c \<Rightarrow>
         (let frontalsToRemove = {k \<in> set (frontals c). k \<notin> saved_indices};
              parentsToRemove = {k \<in> set (parents c). k \<notin> saved_indices}
          in if frontalsToRemove = {} \<and> parentsToRemove = {} then Inr initConditional
             else if card frontalsToRemove = nrFrontals c then Inr Null
             else
               (let s = collect c frontalsToRemove parentsToRemove in
                ebind (efoldl (fill_frontal c frontalsToRemove parentsToRemove solution s)
                         \<lparr> out_matrix = Zero (newTotalRows s) (newTotalCols s),
                           out_sigmas = zero (newTotalRows s), newColOffset = 0 \<rparr>
                         [0 ..< newNrFrontals s]) (\<lambda>out.
                  Inr (Ptr fresh
                        \<lparr> keys = newIndices s, nrFrontals = newNrFrontals s,
                          rsd_dims = newDims s, rsd = out_matrix out,
                          sigmas = out_sigmas out \<rparr>)))))"

section \<open>Gaussian Bayes nets\<close>

text \<open>
  A Bayes net is the sequence of its conditionals in storage order; a
  \<^verbatim>\<open>VectorValuesOrdered\<close> holds one vector per variable index.
\<close>

type_synonym GaussianBayesNetOrdered = "GaussianConditionalOrdered list"

definition all_frontals :: "GaussianBayesNetOrdered \<Rightarrow> Index list" where
  "all_frontals bn = concat (map frontals bn)"

text \<open>The frontal variables of the conditionals stored after position \<open>i\<close>.\<close>

definition later_frontals :: "GaussianBayesNetOrdered \<Rightarrow> nat \<Rightarrow> Index list" where
  "later_frontals bn i = all_frontals (drop (Suc i) bn)"

text \<open>
  The invariants of the data model: a conditional has no more frontals than keys and its
  keys are pairwise distinct; in a Bayes net no variable is a frontal twice, and a parent
  is the frontal of a conditional stored later or of no conditional of the net.
\<close>

definition wf_conditional :: "GaussianConditionalOrdered \<Rightarrow> bool" where
  "wf_conditional c \<longleftrightarrow> nrFrontals c \<le> length (keys c) \<and> distinct (keys c)"

definition wf_bayes_net :: "GaussianBayesNetOrdered \<Rightarrow> bool" where
  "wf_bayes_net bn \<longleftrightarrow>
     list_all wf_conditional bn \<and> distinct (all_frontals bn) \<and>
     list_all (\<lambda>i. list_all (\<lambda>p. p \<in> set (later_frontals bn i) \<or> p \<notin> set (all_frontals bn))
                       (parents (bn ! i)))
              [0 ..< length bn]"

subsection \<open>solveInPlace\<close>

text \<open>
  Modelled from the spec: \<^verbatim>\<open>GaussianConditionalOrdered::solveInPlace\<close> is not under src/.
  By the data model a conditional stands for
  \<open>(R x_frontals) / sigmas = (d - sum (S_i x_parent_i)) / sigmas\<close>, so the sigmas do not
  change its solution. Solving reads the values of the parents, solves the upper-triangular
  system \<open>R x_frontals = d - sum (S_i x_parent_i)\<close> by back-substitution and writes the
  values of the frontals; a zero pivot gives no finite solution and is reported.
\<close>

fun backSubstituteUpper :: "Matrix \<Rightarrow> Vector \<Rightarrow> error + Vector" where
  "backSubstituteUpper [] [] = Inr []"
| "backSubstituteUpper (row # rws) (y # ys) =
     (case backSubstituteUpper rws ys of
        Inl e \<Rightarrow> Inl e
      | Inr xs \<Rightarrow>
          if length row < Suc (length xs) then Inl EigenAssert
          else (let i = length row - Suc (length xs) in
                if row ! i = 0 then Inl IndeterminantLinearSystem
                else Inr ((y - dot (drop (Suc i) row) xs) / (row ! i) # xs)))"
| "backSubstituteUpper _ _ = Inl EigenAssert"

text \<open>The values of the given variables, one after the other.\<close>

fun extractVectorValuesSlices :: "VectorValuesOrdered \<Rightarrow> Index list \<Rightarrow> error + Vector" where
  "extractVectorValuesSlices x [] = Inr []"
| "extractVectorValuesSlices x (k # ks) =
     (if k < length x
      then (case extractVectorValuesSlices x ks of
              Inl e \<Rightarrow> Inl e
            | Inr v \<Rightarrow> Inr (x ! k @ v))
      else Inl OutOfRange)"

text \<open>The vector cut into the values of the given variables, by their dimensions.\<close>

fun writeVectorValuesSlices ::
  "Vector \<Rightarrow> VectorValuesOrdered \<Rightarrow> (Index \<times> nat) list \<Rightarrow> error + VectorValuesOrdered" where
  "writeVectorValuesSlices v x [] = (if v = [] then Inr x else Inl AssertionFailed)"
| "writeVectorValuesSlices v x ((k, n) # kns) =
     (if k < length x \<and> n \<le> length v
      then writeVectorValuesSlices (drop n v) (x[k := take n v]) kns
      else Inl OutOfRange)"

text \<open>The blocks of all the parents, \<open>[S_1 ... S_k]\<close>.\<close>

definition get_S_all :: "GaussianConditionalOrdered \<Rightarrow> Matrix" where
  "get_S_all c =
     map (\<lambda>row. take (block_offset c (length (keys c)) - R_cols c) (drop (R_cols c) row))
       (rsd c)"

text \<open>The values of the frontals, from the values \<open>xS\<close> of the parents.\<close>

definition solve_frontals :: "GaussianConditionalOrdered \<Rightarrow> Vector \<Rightarrow> error + Vector" where
  "solve_frontals c xS =
     ebind (mat_vec (get_S_all c) xS) (\<lambda>Sx.
     ebind (vec_sub (get_d c) Sx) (\<lambda>rhs.
       backSubstituteUpper (get_R c) rhs))"

definition solveInPlace ::
  "GaussianConditionalOrdered \<Rightarrow> VectorValuesOrdered \<Rightarrow> error + VectorValuesOrdered" where
  "solveInPlace c x =
     ebind (extractVectorValuesSlices x (parents c)) (\<lambda>xS.
     ebind (solve_frontals c xS) (\<lambda>soln.
       writeVectorValuesSlices soln x (frontal_vars c)))"

text \<open>
  The dimensions fit: \<open>vd\<close> gives the dimension of every variable. A conditional fits
  when its blocks have the dimensions of its keys, before the right-hand side of width 1,
  when it has one row per frontal dimension and every row has the width of all the blocks,
  and when no pivot of \<open>R\<close> is zero. The values fit when every variable has a vector of
  its dimension.
\<close>

definition conditional_fits :: "nat list \<Rightarrow> GaussianConditionalOrdered \<Rightarrow> bool" where
  "conditional_fits vd c \<longleftrightarrow>
     list_all (\<lambda>k. k < length vd) (keys c) \<and>
     rsd_dims c = map (\<lambda>k. vd ! k) (keys c) @ [1] \<and>
     length (rsd c) = R_cols c \<and>
     list_all (\<lambda>row. length row = sum_list (rsd_dims c)) (rsd c) \<and>
     list_all (\<lambda>i. rsd c ! i ! i \<noteq> 0) [0 ..< length (rsd c)]"

definition values_fit_dims :: "nat list \<Rightarrow> VectorValuesOrdered \<Rightarrow> bool" where
  "values_fit_dims vd x \<longleftrightarrow> map length x = vd"

subsection \<open>optimizeInPlace\<close>

text \<open>
  \<^verbatim>\<open>BOOST_REVERSE_FOREACH(cg, bn) cg->solveInPlace(x)\<close>: the loop runs over the stored
  sequence from its end; an exception of \<^verbatim>\<open>solveInPlace\<close> ends it.
\<close>

definition optimizeInPlace ::
  "GaussianBayesNetOrdered \<Rightarrow> VectorValuesOrdered \<Rightarrow> error + VectorValuesOrdered" where
  "optimizeInPlace bn x = efoldl (\<lambda>x cg. solveInPlace cg x) x (rev bn)"

subsection \<open>determinant\<close>

text \<open>
  A double is a finite number, an infinity or not a number. The entries of the matrices
  are finite doubles and are kept as reals.
\<close>

datatype double = Fin real | PInf | MInf | NaN

text \<open>
  The floating-point arithmetic of the machine is a parameter: the rounded sum of two
  finite doubles, and the library functions \<^verbatim>\<open>log\<close> on the positive finite doubles and
  \<^verbatim>\<open>exp\<close> on the finite doubles. Each returns a double, which need not be finite (a sum
  or an exponential may overflow) and need not be the exact real result.
\<close>

record FloatingPoint =
  fp_add :: "real \<Rightarrow> real \<Rightarrow> double"
  fp_log :: "real \<Rightarrow> double"
  fp_exp :: "real \<Rightarrow> double"

text \<open>
  What IEEE 754 and the C library fix outside these arguments: \<^verbatim>\<open>log\<close> of zero is minus
  infinity and \<^verbatim>\<open>log\<close> of a negative number is not a number; a sum with an operand that
  is not a number, or of the two opposite infinities, is not a number, and an infinity
  absorbs every finite operand; \<^verbatim>\<open>exp\<close> of minus infinity is zero, of plus infinity is
  plus infinity, and of not a number is not a number.
\<close>

definition log_fp :: "FloatingPoint \<Rightarrow> real \<Rightarrow> double" where
  "log_fp fp x = (if x < 0 then NaN else if x = 0 then MInf else fp_log fp x)"

fun add_fp :: "FloatingPoint \<Rightarrow> double \<Rightarrow> double \<Rightarrow> double" where
  "add_fp fp (Fin a) (Fin b) = fp_add fp a b"
| "add_fp fp NaN _ = NaN"
| "add_fp fp _ NaN = NaN"
| "add_fp fp PInf MInf = NaN"
| "add_fp fp MInf PInf = NaN"
| "add_fp fp PInf _ = PInf"
| "add_fp fp _ PInf = PInf"
| "add_fp fp MInf _ = MInf"
| "add_fp fp _ MInf = MInf"

fun exp_fp :: "FloatingPoint \<Rightarrow> double \<Rightarrow> double" where
  "exp_fp fp (Fin a) = fp_exp fp a"
| "exp_fp fp PInf = PInf"
| "exp_fp fp MInf = Fin 0"
| "exp_fp fp NaN = NaN"

text \<open>The arithmetic that does not round: the exact sum, logarithm and exponential.\<close>

definition exact_arithmetic :: FloatingPoint where
  "exact_arithmetic =
     \<lparr> fp_add = (\<lambda>a b. Fin (a + b)), fp_log = (\<lambda>x. Fin (ln x)),
       fp_exp = (\<lambda>x. Fin (exp x)) \<rparr>"

text \<open>
  The division \<^verbatim>\<open>a / s\<close> of finite doubles as \<^verbatim>\<open>matrix\<close> uses it, where only the
  division by zero matters: the quotient by a non-zero divisor is kept exact.
\<close>

definition div_d :: "real \<Rightarrow> real \<Rightarrow> double" where
  "div_d a s =
     (if s \<noteq> 0 then Fin (a / s)
      else if a = 0 then NaN else if 0 < a then PInf else MInf)"

definition ncols :: "'a list list \<Rightarrow> nat" where
  "ncols M = (case M of [] \<Rightarrow> 0 | row # _ \<Rightarrow> length row)"

text \<open>\<^verbatim>\<open>M.diagonal()\<close>.\<close>

definition diagonal :: "Matrix \<Rightarrow> Vector" where
  "diagonal M = map (\<lambda>i. M ! i ! i) [0 ..< min (length M) (ncols M)]"

text \<open>
  \<^verbatim>\<open>v.unaryExpr(log).sum()\<close>. Eigen's sum of an empty vector is zero; otherwise the
  reduction starts with the first coefficient and adds the others in their order (the
  unary expression of a function pointer is not vectorised).
\<close>

definition log_sum :: "FloatingPoint \<Rightarrow> Vector \<Rightarrow> double" where
  "log_sum fp v =
     (case map (log_fp fp) v of
        [] \<Rightarrow> Fin 0
      | l # ls \<Rightarrow> foldl (add_fp fp) l ls)"

text \<open>
  \<^verbatim>\<open>determinant\<close>: \<^verbatim>\<open>logDet\<close> starts at zero, takes the sum of the logarithms of the
  diagonal of each conditional in the order of the net, and is exponentiated.
\<close>

definition determinant :: "FloatingPoint \<Rightarrow> GaussianBayesNetOrdered \<Rightarrow> double" where
  "determinant fp bayesNet =
     exp_fp fp
       (foldl (\<lambda>logDet cg. add_fp fp logDet (log_sum fp (diagonal (get_R cg)))) (Fin 0)
          bayesNet)"

subsection \<open>matrix\<close>

text \<open>Eigen's coefficient accessors \<^verbatim>\<open>M(r, c)\<close> and \<^verbatim>\<open>v(i)\<close>, read and written.\<close>

definition coeff :: "'a list list \<Rightarrow> nat \<Rightarrow> nat \<Rightarrow> error + 'a" where
  "coeff M r c = (if r < length M \<and> c < length (M ! r) then Inr (M ! r ! c) else Inl EigenAssert)"

definition set_coeff :: "'a list list \<Rightarrow> nat \<Rightarrow> nat \<Rightarrow> 'a \<Rightarrow> error + 'a list list" where
  "set_coeff M r c v =
     (if r < length M \<and> c < length (M ! r) then Inr (M[r := (M ! r)[c := v]])
      else Inl EigenAssert)"

definition vcoeff :: "'a list \<Rightarrow> nat \<Rightarrow> error + 'a" where
  "vcoeff v i = (if i < length v then Inr (v ! i) else Inl EigenAssert)"

definition set_vcoeff :: "'a list \<Rightarrow> nat \<Rightarrow> 'a \<Rightarrow> error + 'a list" where
  "set_vcoeff v i a = (if i < length v then Inr (v[i := a]) else Inl EigenAssert)"

text \<open>
  The first loop: \<^verbatim>\<open>mapping.insert(make_pair(*it, N)); N += cg->dim(it)\<close> for every
  frontal of every conditional. \<^verbatim>\<open>insert\<close> keeps the entry of a key that has one.
\<close>

definition insert_offset :: "(Index \<rightharpoonup> nat) \<times> nat \<Rightarrow> Index \<times> nat \<Rightarrow> (Index \<rightharpoonup> nat) \<times> nat" where
  "insert_offset mN kd =
     ((if fst mN (fst kd) = None then (fst mN)(fst kd \<mapsto> snd mN) else fst mN),
      snd mN + snd kd)"

definition offsets :: "GaussianBayesNetOrdered \<Rightarrow> (Index \<rightharpoonup> nat) \<times> nat" where
  "offsets bn = foldl (\<lambda>mN cg. foldl insert_offset mN (frontal_vars cg)) (Map.empty, 0) bn"

text \<open>
  Modelled from the spec: \<^verbatim>\<open>BayesNetOrdered::operator[]\<close> is not under src/. By the
  comment at its call it finds the conditional that corresponds to the key, the one with
  the key among its frontals; without one it throws \<^verbatim>\<open>invalid_argument\<close>.
\<close>

definition bn_lookup :: "GaussianBayesNetOrdered \<Rightarrow> Index \<Rightarrow> error + GaussianConditionalOrdered" where
  "bn_lookup bn key =
     (case find (\<lambda>cg. key \<in> set (frontals cg)) bn of
        None \<Rightarrow> Inl InvalidArgument
      | Some cg \<Rightarrow> Inr cg)"

record matrix_state =
  mapping :: "Index \<rightharpoonup> nat"
  R_acc :: "double list list"
  d_acc :: "double list"

text \<open>\<^verbatim>\<open>d(I+i) = d_(i)/sigmas(i)\<close> for \<open>i < n\<close>.\<close>

definition copy_d :: "Vector \<Rightarrow> Vector \<Rightarrow> nat \<Rightarrow> nat \<Rightarrow> double list \<Rightarrow> error + double list" where
  "copy_d dv sigs I n d =
     efoldl (\<lambda>d i.
        ebind (vcoeff dv i) (\<lambda>a.
        ebind (vcoeff sigs i) (\<lambda>s.
          set_vcoeff d (I + i) (div_d a s))))
       d [0 ..< n]"

text \<open>\<^verbatim>\<open>R(I+i, J+j) = B(i,j)/sigmas(i)\<close> for \<open>i < m\<close> and \<open>j < n\<close>, row by row.\<close>

definition copy_block ::
  "Matrix \<Rightarrow> Vector \<Rightarrow> nat \<Rightarrow> nat \<Rightarrow> nat \<Rightarrow> nat \<Rightarrow> double list list \<Rightarrow> error + double list list" where
  "copy_block B sigs I J m n R =
     efoldl (\<lambda>R ij.
        ebind (coeff B (fst ij) (snd ij)) (\<lambda>a.
        ebind (vcoeff sigs (fst ij)) (\<lambda>s.
          set_coeff R (I + fst ij) (J + snd ij) (div_d a s))))
       R (List.product [0 ..< m] [0 ..< n])"

text \<open>
  One parent in the loop over the \<open>S\<close> matrices. \<^verbatim>\<open>mapping[*keyS]\<close> enters the key with
  the offset 0 when the map does not hold it.
\<close>

definition copy_S ::
  "GaussianConditionalOrdered \<Rightarrow> nat \<Rightarrow> matrix_state \<Rightarrow> nat \<times> Index \<times> nat \<Rightarrow> error + matrix_state" where
  "copy_S cg I st pkv =
     (let p = fst pkv; keyS = fst (snd pkv);
          S = get_S cg p; m = length S; n = dim cg p;
          mapping' = (if mapping st keyS = None then (mapping st)(keyS \<mapsto> 0) else mapping st);
          J = (case mapping' keyS of None \<Rightarrow> 0 | Some J \<Rightarrow> J)
      in ebind (copy_block S (get_sigmas cg) I J m n (R_acc st)) (\<lambda>R.
           Inr (st\<lparr> mapping := mapping', R_acc := R \<rparr>)))"

text \<open>
  One turn of the loop over the map. The map is a \<^verbatim>\<open>std::map\<close>: the loop takes the
  keys in ascending order, and a key that \<^verbatim>\<open>mapping[*keyS]\<close> enters meanwhile is taken
  when it is greater than the current one. The model runs over all the keys of the net in
  ascending order and takes a key when the map holds it at that moment.
\<close>

definition visit_key ::
  "GaussianBayesNetOrdered \<Rightarrow> matrix_state \<Rightarrow> Index \<Rightarrow> error + matrix_state" where
  "visit_key bn st key =
     (case mapping st key of
        None \<Rightarrow> Inr st
      | Some I \<Rightarrow>
          ebind (bn_lookup bn key) (\<lambda>cg.
          let sigs = get_sigmas cg; dv = get_d cg; n = length dv in
          ebind (copy_d dv sigs I n (d_acc st)) (\<lambda>d.
          ebind (copy_block (get_R cg) sigs I I n n (R_acc st)) (\<lambda>R.
            efoldl (copy_S cg I) (st\<lparr> R_acc := R, d_acc := d \<rparr>) (parent_vars cg)))))"

text \<open>
  \<^verbatim>\<open>matrix(bn)\<close>. The vector \<^verbatim>\<open>d\<close> is not initialised by the source: \<open>uninit\<close> is
  what its entries hold before they are written.
\<close>

definition matrix ::
  "double \<Rightarrow> GaussianBayesNetOrdered \<Rightarrow> error + double list list \<times> double list" where
  "matrix uninit bn =
     (let mN = offsets bn; N = snd mN in
      ebind (efoldl (visit_key bn)
               \<lparr> mapping = fst mN, R_acc = replicate N (replicate N (Fin 0)),
                 d_acc = replicate N uninit \<rparr>
               (sort (remdups (concat (map keys bn))))) (\<lambda>st.
        Inr (R_acc st, d_acc st)))"

text \<open>Every entry strictly below the main diagonal is zero.\<close>

definition upper_triangular :: "double list list \<Rightarrow> bool" where
  "upper_triangular R \<longleftrightarrow>
     list_all (\<lambda>i. list_all (\<lambda>j. j < length (R ! i) \<and> R ! i ! j = Fin 0) [0 ..< i])
       [0 ..< length R]"

text \<open>
  A Bayes net of conditionals with one frontal variable each, as sequential elimination
  gives it: every conditional has as many rows as its frontal has dimensions, an
  upper-triangular \<open>R\<close> and no zero sigma; no variable is a frontal twice, and every
  parent is the frontal of a conditional stored later.
\<close>

definition frontal_key :: "GaussianConditionalOrdered \<Rightarrow> Index" where
  "frontal_key cg = keys cg ! 0"

definition wf_single_frontal :: "GaussianConditionalOrdered \<Rightarrow> bool" where
  "wf_single_frontal cg \<longleftrightarrow>
     nrFrontals cg = 1 \<and> keys cg \<noteq> [] \<and> length (rsd cg) = dim cg 0 \<and>
     list_all (\<lambda>s. s \<noteq> 0) (sigmas cg) \<and>
     list_all (\<lambda>a. list_all (\<lambda>b. get_R cg ! a ! b = 0) [0 ..< a]) [0 ..< length (rsd cg)]"

definition wf_single_frontal_net :: "GaussianBayesNetOrdered \<Rightarrow> bool" where
  "wf_single_frontal_net bn \<longleftrightarrow>
     list_all wf_single_frontal bn \<and> distinct (map frontal_key bn) \<and>
     list_all (\<lambda>i. list_all (\<lambda>p. p \<in> set (map frontal_key (drop (Suc i) bn)))
                       (parents (bn ! i)))
              [0 ..< length bn]"

text \<open>The rows and columns a variable starts at: the dimensions stored before it.\<close>

definition offset_of :: "GaussianBayesNetOrdered \<Rightarrow> nat \<Rightarrow> nat" where
  "offset_of bn i = sum_list (map (\<lambda>cg. dim cg 0) (take i bn))"

text \<open>A square matrix of \<open>N\<close> rows whose entries below the diagonal are zero.\<close>

definition lower_zero :: "nat \<Rightarrow> double list list \<Rightarrow> bool" where
  "lower_zero N R \<longleftrightarrow>
     length R = N \<and> (\<forall>r < N. length (R ! r) = N) \<and> (\<forall>r < N. \<forall>c < r. R ! r ! c = Fin 0)"

text \<open>The diagonal entries of all the \<open>R\<close> matrices of a Bayes net.\<close>

definition bn_diagonals :: "GaussianBayesNetOrdered \<Rightarrow> Vector" where
  "bn_diagonals bayesNet = concat (map (\<lambda>cg. diagonal (get_R cg)) bayesNet)"

text \<open>A conditional on one scalar variable with \<open>R = [-1]\<close>: \<open>- x0 = 2\<close>.\<close>

definition negative_conditional :: GaussianConditionalOrdered where
  "negative_conditional =
     \<lparr> keys = [0], nrFrontals = 1, rsd_dims = [1, 1], rsd = [[-1, 2]], sigmas = [1] \<rparr>"

section \<open>Noise models and Jacobian factors\<close>

text \<open>
  Modelled from the spec: the noise models are not under src/. A noise model is consumed
  through its whitening transform, its dimension and whether it is constrained; it has
  one sigma per row, and a zero sigma marks a constrained row. A diagonal model whitens by
  dividing every residual by its sigma. The spec leaves the whitening of a constrained row
  open: \<^verbatim>\<open>Constrained::All\<close> leaves the residual as it is.
\<close>

record NoiseModel =
  nm_sigmas :: Vector
  whiten :: "Vector \<Rightarrow> Vector"

definition nm_dim :: "NoiseModel \<Rightarrow> nat" where
  "nm_dim m = length (nm_sigmas m)"


definition Diagonal_Sigmas :: "Vector \<Rightarrow> NoiseModel" where
  "Diagonal_Sigmas s = \<lparr> nm_sigmas = s, whiten = (\<lambda>v. map2 (/) v s) \<rparr>"

definition Isotropic_Sigma :: "nat \<Rightarrow> real \<Rightarrow> NoiseModel" where
  "Isotropic_Sigma n s = Diagonal_Sigmas (replicate n s)"

definition Constrained_All :: "nat \<Rightarrow> NoiseModel" where
  "Constrained_All n = \<lparr> nm_sigmas = replicate n 0, whiten = (\<lambda>v. v) \<rparr>"

text \<open>
  Modelled from the spec: the class \<^verbatim>\<open>JacobianFactor\<close> is not under src/, only its tests
  are. A factor owns its keys, the block matrix \<open>[A_1 | ... | A_k | b]\<close> with one block
  width per key and the right-hand side as last column, and an optional noise model.
\<close>

record JacobianFactor =
  factor_keys :: "Index list"
  Ab_dims :: "nat list"
  Ab :: Matrix
  model :: "NoiseModel option"

definition Ab_offset :: "JacobianFactor \<Rightarrow> nat \<Rightarrow> nat" where
  "Ab_offset f pos = sum_list (take pos (Ab_dims f))"

text \<open>\<^verbatim>\<open>getA(pos)\<close>, the block of the key at position \<open>pos\<close>, and \<^verbatim>\<open>getb()\<close>.\<close>

definition getA :: "JacobianFactor \<Rightarrow> nat \<Rightarrow> Matrix" where
  "getA f pos = map (\<lambda>row. take (Ab_dims f ! pos) (drop (Ab_offset f pos) row)) (Ab f)"

definition getb :: "JacobianFactor \<Rightarrow> Vector" where
  "getb f = map (\<lambda>row. row ! sum_list (Ab_dims f)) (Ab f)"

text \<open>The dense coefficient matrix \<open>A = [A_1 | ... | A_k]\<close> without the right-hand side.\<close>

definition jacobian_A :: "JacobianFactor \<Rightarrow> Matrix" where
  "jacobian_A f = map (\<lambda>row. take (sum_list (Ab_dims f)) row) (Ab f)"

text \<open>
  The invariant of the data model: one block width per key, and every row as wide as the
  blocks together and the right-hand side.
\<close>

definition wf_factor :: "JacobianFactor \<Rightarrow> bool" where
  "wf_factor f \<longleftrightarrow>
     length (Ab_dims f) = length (factor_keys f) \<and>
     list_all (\<lambda>row. length row = Suc (sum_list (Ab_dims f))) (Ab f)"

subsection \<open>error\<close>

text \<open>A \<^verbatim>\<open>VectorValues\<close> maps keys to vectors; reading a key it does not hold throws.\<close>

type_synonym VectorValues = "Index \<rightharpoonup> Vector"

definition values_at :: "VectorValues \<Rightarrow> Index \<Rightarrow> error + Vector" where
  "values_at c k = (case c k of None \<Rightarrow> Inl OutOfRange | Some v \<Rightarrow> Inr v)"

definition vec_add :: "Vector \<Rightarrow> Vector \<Rightarrow> error + Vector" where
  "vec_add u v = (if length u = length v then Inr (map2 (+) u v) else Inl EigenAssert)"

text \<open>
  Modelled from the spec: \<^verbatim>\<open>unweighted_error\<close>, \<^verbatim>\<open>error_vector\<close> and \<^verbatim>\<open>error\<close> of
  \<^verbatim>\<open>JacobianFactor\<close> are not under src/, only their test is. The factor is a row block of
  coefficients per variable: the residual starts as \<open>- b\<close> and gains \<open>A_i x_i\<close> for
  every key. The error vector is the whitened residual (the residual itself without a
  noise model), the error half its squared norm.
\<close>

definition unweighted_error :: "JacobianFactor \<Rightarrow> VectorValues \<Rightarrow> error + Vector" where
  "unweighted_error f c =
     efoldl (\<lambda>e pos.
        ebind (values_at c (factor_keys f ! pos)) (\<lambda>x.
        ebind (mat_vec (getA f pos) x) (\<lambda>Ax.
          vec_add e Ax)))
       (map uminus (getb f)) [0 ..< length (factor_keys f)]"

definition error_vector :: "JacobianFactor \<Rightarrow> VectorValues \<Rightarrow> error + Vector" where
  "error_vector f c =
     ebind (unweighted_error f c) (\<lambda>e.
       Inr (case model f of None \<Rightarrow> e | Some m \<Rightarrow> whiten m e))"

definition factor_error :: "JacobianFactor \<Rightarrow> VectorValues \<Rightarrow> error + real" where
  "factor_error f c = ebind (error_vector f c) (\<lambda>weighted. Inr (1 / 2 * dot weighted weighted))"

text \<open>
  The words of the spec: the values of the keys as one vector \<open>x\<close>, and
  \<open>0.5 * ||whiten (A x - b)||^2\<close>.
\<close>

fun stacked :: "VectorValues \<Rightarrow> Index list \<Rightarrow> error + Vector" where
  "stacked c [] = Inr []"
| "stacked c (k # ks) =
     (case c k of
        None \<Rightarrow> Inl OutOfRange
      | Some v \<Rightarrow> (case stacked c ks of Inl e \<Rightarrow> Inl e | Inr w \<Rightarrow> Inr (v @ w)))"

definition squaredNorm :: "Vector \<Rightarrow> real" where
  "squaredNorm v = sum_list (map (\<lambda>a. a * a) v)"

definition spec_residual :: "JacobianFactor \<Rightarrow> Vector \<Rightarrow> Vector" where
  "spec_residual f x = map2 (-) (map (\<lambda>row. dot row x) (jacobian_A f)) (getb f)"

text \<open>The values hold a vector of the right dimension for every key of the factor.\<close>

definition values_fit :: "VectorValues \<Rightarrow> JacobianFactor \<Rightarrow> bool" where
  "values_fit c f \<longleftrightarrow>
     list_all2 (\<lambda>k d. case c k of None \<Rightarrow> False | Some v \<Rightarrow> length v = d)
       (factor_keys f) (Ab_dims f)"

text \<open>
  The values of the first \<open>j\<close> keys as one vector, and the residual after the first
  \<open>j\<close> turns of the loop of \<^verbatim>\<open>unweighted_error\<close>.
\<close>

definition partial_x :: "VectorValues \<Rightarrow> JacobianFactor \<Rightarrow> nat \<Rightarrow> Vector" where
  "partial_x c f j = concat (map (\<lambda>k. the (c k)) (take j (factor_keys f)))"

definition partial_residual :: "VectorValues \<Rightarrow> JacobianFactor \<Rightarrow> nat \<Rightarrow> Vector" where
  "partial_residual c f j =
     map (\<lambda>row. dot (take (Ab_offset f j) row) (partial_x c f j) - row ! sum_list (Ab_dims f))
       (Ab f)"

text \<open>The factor and the values of \<^verbatim>\<open>TEST(JacobianFactor, error)\<close>.\<close>

definition simple_factor :: JacobianFactor where
  "simple_factor =
     \<lparr> factor_keys = [5, 10, 15], Ab_dims = [3, 3, 3],
       Ab = [[1, 0, 0,  2, 0, 0,  3, 0, 0,  1],
             [0, 1, 0,  0, 2, 0,  0, 3, 0,  2],
             [0, 0, 1,  0, 0, 2,  0, 0, 3,  3]],
       model = Some (Diagonal_Sigmas [1 / 2, 1 / 2, 1 / 2]) \<rparr>"

definition simple_values :: VectorValues where
  "simple_values =
     [5 \<mapsto> [1, 1, 1], 10 \<mapsto> [1 / 2, 1 / 2, 1 / 2], 15 \<mapsto> [1 / 3, 1 / 3, 1 / 3]]"

section \<open>Elimination\<close>

subsection \<open>Combining factors\<close>

fun position :: "'a \<Rightarrow> 'a list \<Rightarrow> nat option" where
  "position k [] = None"
| "position k (x # xs) = (if k = x then Some 0 else map_option Suc (position k xs))"

text \<open>
  Modelled from the spec: the constructor \<^verbatim>\<open>JacobianFactor(factors, ordering)\<close> is not
  under src/, only \<^verbatim>\<open>TEST(JacobianFactor, construct_from_graph)\<close> is. Combining stacks
  the rows of the factors over the union of their keys, the keys of the ordering first and
  the others in ascending order, with zero blocks for the keys a factor does not hold; the
  sigmas of the rows follow the rows (1 for a factor without noise model).
\<close>

definition key_dim :: "JacobianFactor list \<Rightarrow> Index \<Rightarrow> nat" where
  "key_dim fs k =
     (case find (\<lambda>f. k \<in> set (factor_keys f)) fs of
        None \<Rightarrow> 0
      | Some f \<Rightarrow> (case position k (factor_keys f) of None \<Rightarrow> 0 | Some p \<Rightarrow> Ab_dims f ! p))"

definition row_block :: "JacobianFactor list \<Rightarrow> JacobianFactor \<Rightarrow> Vector \<Rightarrow> Index \<Rightarrow> Vector" where
  "row_block fs f row k =
     (case position k (factor_keys f) of
        None \<Rightarrow> replicate (key_dim fs k) 0
      | Some p \<Rightarrow> take (Ab_dims f ! p) (drop (Ab_offset f p) row))"

definition factor_sigmas :: "JacobianFactor \<Rightarrow> Vector" where
  "factor_sigmas f =
     (case model f of None \<Rightarrow> replicate (length (Ab f)) 1 | Some m \<Rightarrow> nm_sigmas m)"

definition joint_keys :: "JacobianFactor list \<Rightarrow> Index list \<Rightarrow> Index list" where
  "joint_keys fs ord =
     ord @ filter (\<lambda>k. k \<notin> set ord) (sort (remdups (concat (map factor_keys fs))))"

definition joint_model :: "Vector \<Rightarrow> NoiseModel" where
  "joint_model sig =
     (if 0 \<in> set sig then \<lparr> nm_sigmas = sig, whiten = (\<lambda>v. v) \<rparr> else Diagonal_Sigmas sig)"

definition combine :: "JacobianFactor list \<Rightarrow> Index list \<Rightarrow> JacobianFactor" where
  "combine fs ord =
     (let ks = joint_keys fs ord in
      \<lparr> factor_keys = ks,
        Ab_dims = map (key_dim fs) ks,
        Ab = concat (map (\<lambda>f. map (\<lambda>row. concat (map (row_block fs f row) ks)
                                           @ [row ! sum_list (Ab_dims f)])
                                 (Ab f)) fs),
        model = Some (joint_model (concat (map factor_sigmas fs))) \<rparr>)"

subsection \<open>Eliminating frontal variables\<close>

text \<open>What the model keeps of the conditional and of the remaining factor.\<close>

record EliminatedConditional =
  ec_keys :: "Index list"
  ec_nrFrontals :: nat
  ec_rows :: nat
  ec_sigmas :: Vector

record RemainingFactor =
  rf_keys :: "Index list"
  rf_dims :: "nat list"
  rf_rows :: nat

text \<open>
  Modelled from the spec: \<^verbatim>\<open>JacobianFactor::eliminate\<close> and \<^verbatim>\<open>EliminateQR\<close> are not
  under src/, only their tests are, and the model keeps the structure of their result, not
  its numbers. The factorisation turns \<open>[A | b]\<close> into an upper-triangular matrix: of the
  \<open>m\<close> rows over \<open>n\<close> coefficient columns, the first \<open>min m n\<close> can hold a coefficient.
  The rows of the frontal dimension are the conditional, the rows after them the remaining
  factor over the separator; \<^verbatim>\<open>TEST(JacobianFactor, EliminateQROrdered)\<close> expects so
  (14 rows over 10 columns leave the rows 6 to 9 to the remaining factor). A factor with
  fewer such rows than the frontal dimension is singular, and reported. The constrained rows
  (sigma 0) come first in the triangle and keep the sigma 0; the other rows come out with
  the sigma 1.
\<close>

definition triangular_sigmas :: "NoiseModel option \<Rightarrow> nat \<Rightarrow> Vector" where
  "triangular_sigmas mo r =
     (case mo of
        None \<Rightarrow> replicate r 1
      | Some m \<Rightarrow>
          (let c = min r (length (filter (\<lambda>s. s = 0) (nm_sigmas m)))
           in replicate c 0 @ replicate (r - c) 1))"

definition eliminate ::
  "JacobianFactor \<Rightarrow> nat \<Rightarrow> error + EliminatedConditional \<times> RemainingFactor" where
  "eliminate f nf =
     (let m = length (Ab f); n = sum_list (Ab_dims f);
          frontalDim = sum_list (take nf (Ab_dims f));
          r = min m n
      in if length (factor_keys f) < nf then Inl InvalidArgument
         else if r < frontalDim then Inl IndeterminantLinearSystem
         else Inr (\<lparr> ec_keys = factor_keys f, ec_nrFrontals = nf,
                     ec_rows = frontalDim,
                     ec_sigmas = take frontalDim (triangular_sigmas (model f) r) \<rparr>,
                   \<lparr> rf_keys = drop nf (factor_keys f),
                     rf_dims = drop nf (Ab_dims f),
                     rf_rows = r - frontalDim \<rparr>))"

text \<open>
  \<^verbatim>\<open>EliminateQR(factors, keys)\<close> combines the factors with the keys to eliminate first
  and eliminates them; \<^verbatim>\<open>factor.eliminate(keys)\<close> does so for one factor.
\<close>

definition EliminateQR ::
  "JacobianFactor list \<Rightarrow> Index list \<Rightarrow> error + EliminatedConditional \<times> RemainingFactor" where
  "EliminateQR factors ks =
     (if list_all (\<lambda>k. k \<in> set (concat (map factor_keys factors))) ks
      then eliminate (combine factors ks) (length ks)
      else Inl RuntimeError)"

definition factor_eliminate ::
  "JacobianFactor \<Rightarrow> Index list \<Rightarrow> error + EliminatedConditional \<times> RemainingFactor" where
  "factor_eliminate f ks = EliminateQR [f] ks"

subsection \<open>Symbolic elimination\<close>

text \<open>
  Modelled from the spec: \<^verbatim>\<open>EliminateSymbolic\<close> is not under src/, only its test is.
  A symbolic factor is its keys. Eliminating combines the factors into the union of their
  keys and gives one conditional, the frontals in the order given and then the separator in
  ascending order, and one remaining factor over the separator. A key to eliminate that no
  factor holds is a structural error.
\<close>

type_synonym SymbolicFactor = "Index list"

record SymbolicConditional =
  sc_keys :: "Index list"
  sc_nrFrontals :: nat

definition sc_frontals :: "SymbolicConditional \<Rightarrow> Index list" where
  "sc_frontals c = take (sc_nrFrontals c) (sc_keys c)"

definition sc_parents :: "SymbolicConditional \<Rightarrow> Index list" where
  "sc_parents c = drop (sc_nrFrontals c) (sc_keys c)"

definition EliminateSymbolic ::
  "SymbolicFactor list \<Rightarrow> Index list \<Rightarrow> error + SymbolicConditional \<times> SymbolicFactor" where
  "EliminateSymbolic factors ks =
     (let allKeys = sort (remdups (concat factors)) in
      if list_all (\<lambda>k. k \<in> set allKeys) ks
      then (let orderedKeys = ks @ filter (\<lambda>k. k \<notin> set ks) allKeys in
            Inr (\<lparr> sc_keys = orderedKeys, sc_nrFrontals = length ks \<rparr>,
                 drop (length ks) orderedKeys))
      else Inl RuntimeError)"

subsection \<open>The factors of the tests\<close>

text \<open>\<^verbatim>\<open>TEST(JacobianFactor, construct_from_graph)\<close>.\<close>

definition construct_from_graph_factors :: "JacobianFactor list" where
  "construct_from_graph_factors =
     [\<lparr> factor_keys = [10], Ab_dims = [2], Ab = [[1, 0, 2], [0, 1, - 1]],
        model = Some (Isotropic_Sigma 2 (1 / 10)) \<rparr>,
      \<lparr> factor_keys = [10, 8], Ab_dims = [2, 2],
        Ab = [[- 2, 0, 3, 0, 4], [0, - 2, 0, 3, - 5]],
        model = Some (Isotropic_Sigma 2 (1 / 2)) \<rparr>,
      \<lparr> factor_keys = [8, 12], Ab_dims = [2, 2],
        Ab = [[- 4, 0, 5, 0, 3], [0, - 4, 0, 5, - 6]],
        model = Some (Isotropic_Sigma 2 1) \<rparr>]"

text \<open>\<^verbatim>\<open>TEST(JacobianFactor, eliminate2)\<close>: four rows on the keys 2 and 11.\<close>

definition eliminate2_factor :: JacobianFactor where
  "eliminate2_factor =
     \<lparr> factor_keys = [2, 11], Ab_dims = [2, 4],
       Ab = [[- 1, 0,  1, 0, 0, 0,  - 2 / 10],
             [0, - 1,  0, 1, 0, 0,  3 / 10],
             [1, 0,  0, 0, - 1, 0,  2 / 10],
             [0, 1,  0, 0, 0, - 1,  - 1 / 10]],
       model = Some (Diagonal_Sigmas [2 / 10, 2 / 10, 1 / 10, 1 / 10]) \<rparr>"

text \<open>\<^verbatim>\<open>TEST(JacobianFactor, EliminateQROrdered)\<close>: the matrix and the four factors.\<close>

definition EliminateQROrdered_Ab :: Matrix where
  "EliminateQROrdered_Ab =
     [[4, 0, 1, 4, 1, 0, 3, 6, 8, 8, 1],
      [9, 2, 0, 1, 6, 3, 9, 6, 6, 9, 4],
      [5, 3, 7, 9, 5, 5, 9, 1, 3, 7, 0],
      [5, 6, 5, 7, 9, 4, 0, 1, 1, 3, 5],
      [0, 0, 4, 5, 6, 6, 7, 9, 4, 5, 4],
      [0, 0, 9, 4, 8, 6, 2, 1, 4, 1, 6],
      [0, 0, 6, 0, 4, 2, 4, 0, 1, 9, 6],
      [0, 0, 6, 6, 4, 4, 5, 5, 5, 8, 6],
      [0, 0, 0, 0, 8, 0, 9, 8, 2, 8, 0],
      [0, 0, 0, 0, 0, 9, 4, 6, 3, 2, 0],
      [0, 0, 0, 0, 1, 1, 9, 1, 5, 5, 3],
      [0, 0, 0, 0, 1, 1, 3, 3, 2, 0, 5],
      [0, 0, 0, 0, 0, 0, 0, 0, 2, 4, 6],
      [0, 0, 0, 0, 0, 0, 0, 0, 6, 3, 4]]"

definition sub_matrix :: "Matrix \<Rightarrow> nat \<Rightarrow> nat \<Rightarrow> nat \<Rightarrow> nat \<Rightarrow> Matrix" where
  "sub_matrix M r c h w = (case block M r c h w of Inl e \<Rightarrow> [] | Inr B \<Rightarrow> B)"

definition EliminateQROrdered_factors :: "JacobianFactor list" where
  "EliminateQROrdered_factors =
     [\<lparr> factor_keys = [3, 5, 7, 9, 11], Ab_dims = [2, 2, 2, 2, 2],
        Ab = sub_matrix EliminateQROrdered_Ab 0 0 4 11,
        model = Some (Isotropic_Sigma 4 (1 / 2)) \<rparr>,
      \<lparr> factor_keys = [5, 7, 9, 11], Ab_dims = [2, 2, 2, 2],
        Ab = sub_matrix EliminateQROrdered_Ab 4 2 4 9,
        model = Some (Isotropic_Sigma 4 (1 / 2)) \<rparr>,
      \<lparr> factor_keys = [7, 9, 11], Ab_dims = [2, 2, 2],
        Ab = sub_matrix EliminateQROrdered_Ab 8 4 4 7,
        model = Some (Isotropic_Sigma 4 (1 / 2)) \<rparr>,
      \<lparr> factor_keys = [11], Ab_dims = [2],
        Ab = sub_matrix EliminateQROrdered_Ab 12 8 2 3,
        model = Some (Isotropic_Sigma 2 (1 / 2)) \<rparr>]"



definition constraint2_factor :: JacobianFactor where
  "constraint2_factor =
     \<lparr> factor_keys = [1, 2], Ab_dims = [2, 2],
       Ab = [[1, 2, 1, 2, 3], [2, 1, 2, 4, 4]],
       model = Some (Constrained_All 2) \<rparr>"

text \<open>
  A conditional on the scalar frontals 0 and 1 with the scalar parent 2, used to run the
  definitions: \<open>x0 + 2 x1 + 3 x2 = 4\<close> and \<open>5 x1 + 6 x2 = 7\<close>.
\<close>

definition example_conditional :: GaussianConditionalOrdered where
  "example_conditional =
     \<lparr> keys = [0, 1, 2], nrFrontals = 2, rsd_dims = [1, 1, 1, 1],
       rsd = [[1, 2, 3, 4], [0, 5, 6, 7]], sigmas = [1, 1] \<rparr>"

text \<open>
  A Bayes net of three conditionals: the frontals 0 (of dimension 2) and 1 with the parent
  2, the frontal 2 with the parent 3, and the frontal 3.
\<close>

definition two_frontal_conditional :: GaussianConditionalOrdered where
  "two_frontal_conditional =
     \<lparr> keys = [0, 1, 2], nrFrontals = 2, rsd_dims = [2, 1, 1, 1],
       rsd = [[1, 0, 0, 1, 0], [0, 1, 0, 1, 0], [0, 0, 1, 1, 0]], sigmas = [1, 1, 1] \<rparr>"

definition two_frontal_bn :: GaussianBayesNetOrdered where
  "two_frontal_bn =
     [two_frontal_conditional,
      \<lparr> keys = [2, 3], nrFrontals = 1, rsd_dims = [1, 1, 1], rsd = [[1, 0, 0]],
        sigmas = [1] \<rparr>,
      \<lparr> keys = [3], nrFrontals = 1, rsd_dims = [1, 1], rsd = [[1, 0]], sigmas = [1] \<rparr>]"

text \<open>A Bayes net of two conditionals on scalar variables, and a constrained conditional.\<close>

definition single_frontal_bn :: GaussianBayesNetOrdered where
  "single_frontal_bn =
     [\<lparr> keys = [0, 1], nrFrontals = 1, rsd_dims = [1, 1, 1], rsd = [[2, 1, 4]],
        sigmas = [1] \<rparr>,
      \<lparr> keys = [1], nrFrontals = 1, rsd_dims = [1, 1], rsd = [[1, 2]], sigmas = [1 / 2] \<rparr>]"

definition constrained_conditional :: GaussianConditionalOrdered where
  "constrained_conditional =
     \<lparr> keys = [1], nrFrontals = 1, rsd_dims = [2, 1],
       rsd = [[1, 0, 12 / 10], [0, 1, 34 / 10]], sigmas = [0, 0] \<rparr>"

text \<open>
  A chain of three conditionals: the example conditional, \<open>x2 + x3 = 5\<close> and the root
  \<open>2 x3 = 4\<close>.
\<close>

definition chain_bn :: GaussianBayesNetOrdered where
  "chain_bn =
     [example_conditional,
      \<lparr> keys = [2, 3], nrFrontals = 1, rsd_dims = [1, 1, 1], rsd = [[1, 1, 5]],
        sigmas = [1] \<rparr>,
      \<lparr> keys = [3], nrFrontals = 1, rsd_dims = [1, 1], rsd = [[2, 4]], sigmas = [1] \<rparr>]"

section \<open>Properties of conditionDensity\<close>

lemma conditionDensity_removed_all:
  assumes "F = {k \<in> set (frontals c). k \<notin> saved_indices}"
    and "F \<noteq> {}" and "card F = nrFrontals c"
  shows "conditionDensity fresh (Ptr a c) saved_indices solution = Inr Null"
  using assms by (simp add: conditionDensity_def Let_def)

text \<open>
  C10. Applied to a null pointer, \<^verbatim>\<open>conditionDensity\<close> returns that null pointer and does
  not fail, whatever the saved indices and the solution are.
\<close>

theorem conditionDensity_null:
  "conditionDensity fresh Null saved_indices solution = Inr Null"
  by (simp add: conditionDensity_def)

text \<open>
  C7. When the saved indices contain every frontal and every parent of a non-null
  conditional, \<^verbatim>\<open>conditionDensity\<close> returns the pointer it was given: the same address
  and the same object, whatever the solution is.
\<close>

theorem conditionDensity_all_saved:
  assumes "set (frontals c) \<subseteq> saved_indices" and "set (parents c) \<subseteq> saved_indices"
  shows "conditionDensity fresh (Ptr a c) saved_indices solution = Inr (Ptr a c)"
proof -
  have "{k \<in> set (frontals c). k \<notin> saved_indices} = {}"
    using assms(1) by auto
  moreover have "{k \<in> set (parents c). k \<notin> saved_indices} = {}"
    using assms(2) by auto
  ultimately show ?thesis
    by (simp add: conditionDensity_def)
qed

theorem conditionDensity_all_saved_witness:
  "set (frontals example_conditional) \<subseteq> {0, 1, 2}
   \<and> set (parents example_conditional) \<subseteq> {0, 1, 2}
   \<and> conditionDensity 7 (Ptr 3 example_conditional) {0, 1, 2} [[10], [20], [30]]
       = Inr (Ptr 3 example_conditional)"
proof -
  have f: "set (frontals example_conditional) \<subseteq> {0, 1, 2}"
    by (simp add: frontals_def example_conditional_def)
  have p: "set (parents example_conditional) \<subseteq> {0, 1, 2}"
    by (simp add: parents_def example_conditional_def)
  show ?thesis
    using f p conditionDensity_all_saved [OF f p, of 7 3 "[[10], [20], [30]]"] by simp
qed

text \<open>
  C8. When the saved indices contain none of the frontal variables of a non-null
  conditional, \<^verbatim>\<open>conditionDensity\<close> returns the null pointer, which differs from every
  pointer to a conditional. The conditional is well formed: it has a frontal variable, no
  more frontals than keys, and its frontal keys are pairwise distinct.
\<close>

theorem conditionDensity_no_frontal_saved:
  assumes "0 < nrFrontals c" and "nrFrontals c \<le> length (keys c)"
    and "distinct (frontals c)" and "set (frontals c) \<inter> saved_indices = {}"
  shows "conditionDensity fresh (Ptr a c) saved_indices solution = Inr Null
         \<and> (Null :: GaussianConditionalOrdered shared_ptr) \<noteq> Ptr a' c'"
proof -
  have len: "length (frontals c) = nrFrontals c"
    using assms(2) by (simp add: frontals_def)
  have all: "{k \<in> set (frontals c). k \<notin> saved_indices} = set (frontals c)"
    using assms(4) by auto
  have cd: "card (set (frontals c)) = nrFrontals c"
    using assms(3) len by (simp add: distinct_card)
  have ne: "set (frontals c) \<noteq> {}"
    using assms(1) len by auto
  have "conditionDensity fresh (Ptr a c) saved_indices solution = Inr Null"
    using conditionDensity_removed_all [OF all [symmetric] ne cd] .
  then show ?thesis by simp
qed

theorem conditionDensity_no_frontal_saved_witness:
  "0 < nrFrontals example_conditional
   \<and> nrFrontals example_conditional \<le> length (keys example_conditional)
   \<and> distinct (frontals example_conditional)
   \<and> set (frontals example_conditional) \<inter> {2} = {}
   \<and> conditionDensity 7 (Ptr 3 example_conditional) {2} [[10], [20], [30]] = Inr Null"
proof -
  have h1: "0 < nrFrontals example_conditional"
    by (simp add: example_conditional_def)
  have h2: "nrFrontals example_conditional \<le> length (keys example_conditional)"
    by (simp add: example_conditional_def)
  have h3: "distinct (frontals example_conditional)"
    by (simp add: frontals_def example_conditional_def)
  have h4: "set (frontals example_conditional) \<inter> {2} = {}"
    by (simp add: frontals_def example_conditional_def)
  show ?thesis
    using h1 h2 h3 h4
      conditionDensity_no_frontal_saved [OF h1 h2 h3 h4, of 7 3 "[[10], [20], [30]]"]
    by simp
qed

section \<open>Properties of elimination\<close>

text \<open>The model of combining gives the joint factors that the tests expect.\<close>

lemma combine_construct_from_graph:
  "factor_keys (combine construct_from_graph_factors [10, 8, 12]) = [10, 8, 12]
   \<and> Ab_dims (combine construct_from_graph_factors [10, 8, 12]) = [2, 2, 2]
   \<and> Ab (combine construct_from_graph_factors [10, 8, 12])
       = [[1, 0, 0, 0, 0, 0, 2], [0, 1, 0, 0, 0, 0, - 1],
          [- 2, 0, 3, 0, 0, 0, 4], [0, - 2, 0, 3, 0, 0, - 5],
          [0, 0, - 4, 0, 5, 0, 3], [0, 0, 0, - 4, 0, 5, - 6]]
   \<and> factor_sigmas (combine construct_from_graph_factors [10, 8, 12])
       = [1 / 10, 1 / 10, 1 / 2, 1 / 2, 1, 1]"
  by code_simp

lemma combine_EliminateQROrdered:
  "factor_keys (combine EliminateQROrdered_factors [3, 5, 7]) = [3, 5, 7, 9, 11]
   \<and> Ab_dims (combine EliminateQROrdered_factors [3, 5, 7]) = [2, 2, 2, 2, 2]
   \<and> Ab (combine EliminateQROrdered_factors [3, 5, 7]) = EliminateQROrdered_Ab"
  by code_simp

text \<open>
  The model of elimination gives the structure that the tests \<^verbatim>\<open>eliminate2\<close> and
  \<^verbatim>\<open>constraint_eliminate2\<close> expect: two of four rows remain on the key 11, and no row
  remains on the key 2 under a conditional with the sigmas 0.
\<close>

lemma eliminate_eliminate2:
  "factor_eliminate eliminate2_factor [2]
     = Inr (\<lparr> ec_keys = [2, 11], ec_nrFrontals = 1, ec_rows = 2, ec_sigmas = [1, 1] \<rparr>,
            \<lparr> rf_keys = [11], rf_dims = [4], rf_rows = 2 \<rparr>)"
  by code_simp

lemma eliminate_constraint2:
  "factor_eliminate constraint2_factor [1]
     = Inr (\<lparr> ec_keys = [1, 2], ec_nrFrontals = 1, ec_rows = 2, ec_sigmas = [0, 0] \<rparr>,
            \<lparr> rf_keys = [2], rf_dims = [2], rf_rows = 0 \<rparr>)"
  by code_simp





text \<open>
  C3. Eliminating the variables 0, 1, 2, 3 symbolically from the factors on the keys
  (2, 4, 6), (1, 2, 5) and (0, 3) gives one conditional with the frontals 0, 1, 2, 3 and
  the parents 4, 5, 6, and one remaining factor on the keys 4, 5, 6.
\<close>

theorem EliminateSymbolic_scenario:
  "EliminateSymbolic [[2, 4, 6], [1, 2, 5], [0, 3]] [0, 1, 2, 3]
     = Inr (\<lparr> sc_keys = [0, 1, 2, 3, 4, 5, 6], sc_nrFrontals = 4 \<rparr>, [4, 5, 6])
   \<and> sc_frontals \<lparr> sc_keys = [0, 1, 2, 3, 4, 5, 6], sc_nrFrontals = 4 \<rparr> = [0, 1, 2, 3]
   \<and> sc_parents \<lparr> sc_keys = [0, 1, 2, 3, 4, 5, 6], sc_nrFrontals = 4 \<rparr> = [4, 5, 6]"
  by code_simp

section \<open>Loops that may fail\<close>

lemma efoldl_invariant:
  assumes "efoldl f s xs = Inr s'" and "P s"
    and "\<And>s x s'. P s \<Longrightarrow> x \<in> set xs \<Longrightarrow> f s x = Inr s' \<Longrightarrow> P s'"
  shows "P s'"
  using assms
proof (induction xs arbitrary: s)
  case Nil
  then show ?case by simp
next
  case (Cons x xs)
  from Cons.prems(1) obtain s1 where s1: "f s x = Inr s1" and r: "efoldl f s1 xs = Inr s'"
    by (auto split: sum.splits)
  have x: "x \<in> set (x # xs)" by simp
  have P1: "P s1" by (rule Cons.prems(3) [OF Cons.prems(2) x s1])
  have step: "P t'" if "P t" "y \<in> set xs" "f t y = Inr t'" for t y t'
  proof -
    from that(2) have "y \<in> set (x # xs)" by simp
    then show ?thesis by (rule Cons.prems(3) [OF that(1) _ that(3)])
  qed
  show ?case by (rule Cons.IH [OF r P1 step])
qed

lemma efoldl_append:
  "efoldl f s (xs @ ys) = (case efoldl f s xs of Inl e \<Rightarrow> Inl e | Inr s' \<Rightarrow> efoldl f s' ys)"
  by (induction xs arbitrary: s) (auto split: sum.splits)

section \<open>Properties of the error of a Jacobian factor\<close>

lemma dot_append:
  "length u = length v \<Longrightarrow> dot (u @ u') (v @ v') = dot u v + dot u' v'"
  by (simp add: dot_def)

lemma stacked_take:
  assumes "list_all2 (\<lambda>k d. case c k of None \<Rightarrow> False | Some v \<Rightarrow> length v = d) ks ds"
  shows "stacked c ks = Inr (concat (map (\<lambda>k. the (c k)) ks))
         \<and> length (concat (map (\<lambda>k. the (c k)) ks)) = sum_list ds"
  using assms
  by (induction ks ds rule: list_all2_induct) (auto split: option.splits)

lemma fit_take:
  assumes "values_fit c f"
  shows "list_all2 (\<lambda>k d. case c k of None \<Rightarrow> False | Some v \<Rightarrow> length v = d)
           (take j (factor_keys f)) (take j (Ab_dims f))"
  using assms by (simp add: values_fit_def)

lemma fit_nth:
  assumes "values_fit c f" and "j < length (factor_keys f)"
  obtains v where "c (factor_keys f ! j) = Some v" and "length v = Ab_dims f ! j"
proof -
  from assms have "case c (factor_keys f ! j) of None \<Rightarrow> False | Some v \<Rightarrow> length v = Ab_dims f ! j"
    by (simp add: values_fit_def list_all2_conv_all_nth)
  then show ?thesis using that by (auto split: option.splits)
qed

lemma residual_step:
  assumes wf: "wf_factor f" and fit: "values_fit c f" and j: "j < length (factor_keys f)"
  shows "ebind (values_at c (factor_keys f ! j)) (\<lambda>x.
         ebind (mat_vec (getA f j) x) (\<lambda>Ax. vec_add (partial_residual c f j) Ax)) = Inr (partial_residual c f (Suc j))"
proof -
  let ?ks = "factor_keys f" and ?ds = "Ab_dims f"
  from wf have len: "length ?ds = length ?ks"
    and rows: "\<forall>row \<in> set (Ab f). length row = Suc (sum_list ?ds)"
    by (simp_all add: wf_factor_def list_all_iff)
  from fit_nth [OF fit j] obtain v where v: "c (?ks ! j) = Some v" "length v = ?ds ! j"
    by blast
  have jd: "j < length ?ds" using j len by simp
  have off: "Ab_offset f (Suc j) = Ab_offset f j + ?ds ! j"
    using jd by (simp add: Ab_offset_def take_Suc_conv_app_nth)
  have "sum_list (take (Suc j) ?ds) \<le> sum_list (take (Suc j) ?ds @ drop (Suc j) ?ds)"
    by (simp del: append_take_drop_id)
  then have bound: "Ab_offset f j + ?ds ! j \<le> sum_list ?ds"
    using off by (simp add: Ab_offset_def)
  have XS: "partial_x c f (Suc j) = partial_x c f j @ v"
    using j v by (simp add: partial_x_def take_Suc_conv_app_nth)
  have lenX: "length (partial_x c f j) = Ab_offset f j"
    using stacked_take [OF fit_take [OF fit, of j]] by (simp add: partial_x_def Ab_offset_def)
  have blk: "list_all (\<lambda>row. length row = length v) (getA f j)"
    using rows bound v by (auto simp: getA_def list_all_iff)
  have row_eq: "dot (take (Ab_offset f j) row) (partial_x c f j) - row ! sum_list ?ds
                  + dot (take (?ds ! j) (drop (Ab_offset f j) row)) v
                = dot (take (Ab_offset f (Suc j)) row) (partial_x c f (Suc j)) - row ! sum_list ?ds"
    if "row \<in> set (Ab f)" for row
  proof -
    from that rows bound have "Ab_offset f j \<le> length row" by auto
    then have l: "length (take (Ab_offset f j) row) = length (partial_x c f j)"
      using lenX by simp
    have "take (Ab_offset f (Suc j)) row
            = take (Ab_offset f j) row @ take (?ds ! j) (drop (Ab_offset f j) row)"
      unfolding off by (rule take_add)
    then show ?thesis
      using dot_append [OF l] XS by simp
  qed
  have "map2 (+) (partial_residual c f j) (map (\<lambda>row. dot row v) (getA f j)) = partial_residual c f (Suc j)"
    unfolding partial_residual_def getA_def
    by (simp add: zip_map_map zip_same_conv_map o_def row_eq cong: map_cong)
  then show ?thesis
    using v blk by (simp add: ebind_def values_at_def mat_vec_def vec_add_def partial_residual_def getA_def)
qed


lemma residual_fold:
  assumes wf: "wf_factor f" and fit: "values_fit c f" and j: "j \<le> length (factor_keys f)"
  shows "efoldl (\<lambda>e pos.
            ebind (values_at c (factor_keys f ! pos)) (\<lambda>x.
            ebind (mat_vec (getA f pos) x) (\<lambda>Ax. vec_add e Ax)))
           (partial_residual c f 0) [0 ..< j] = Inr (partial_residual c f j)"
  using j
proof (induction j)
  case 0
  show ?case by simp
next
  case (Suc j)
  then have IH: "efoldl (\<lambda>e pos.
            ebind (values_at c (factor_keys f ! pos)) (\<lambda>x.
            ebind (mat_vec (getA f pos) x) (\<lambda>Ax. vec_add e Ax)))
           (partial_residual c f 0) [0 ..< j] = Inr (partial_residual c f j)" and j: "j < length (factor_keys f)"
    by simp_all
  show ?case
    using IH residual_step [OF wf fit j] by (simp add: efoldl_append)
qed

lemma partial_residual_0: "partial_residual c f 0 = map uminus (getb f)"
  by (simp add: partial_residual_def partial_x_def getb_def Ab_offset_def dot_def)

lemma partial_residual_all:
  assumes "wf_factor f"
  shows "partial_residual c f (length (factor_keys f)) = spec_residual f (partial_x c f (length (factor_keys f)))"
proof -
  from assms have "Ab_offset f (length (factor_keys f)) = sum_list (Ab_dims f)"
    by (simp add: wf_factor_def Ab_offset_def)
  then show ?thesis
    by (simp add: partial_residual_def spec_residual_def jacobian_A_def getb_def zip_map_map
        zip_same_conv_map o_def)
qed

lemma dot_self: "dot v v = squaredNorm v"
  by (simp add: dot_def squaredNorm_def zip_same_conv_map o_def)

text \<open>
  C9. For a well formed factor with a noise model and values that hold a vector of the
  right dimension for every key, the unweighted error is \<open>A x - b\<close>, where \<open>x\<close> is the
  vector of the values of the keys and \<open>A\<close> the dense coefficient matrix, and the error is
  half the squared norm of the whitened \<open>A x - b\<close>.
\<close>

theorem factor_error_spec:
  assumes wf: "wf_factor f" and fit: "values_fit c f" and m: "model f = Some m"
  shows "\<exists>x. stacked c (factor_keys f) = Inr x
           \<and> unweighted_error f c = Inr (spec_residual f x)
           \<and> factor_error f c = Inr (1 / 2 * squaredNorm (whiten m (spec_residual f x)))"
proof -
  let ?x = "partial_x c f (length (factor_keys f))"
  have st: "stacked c (factor_keys f) = Inr ?x"
    using stacked_take [OF fit_take [OF fit, of "length (factor_keys f)"]] by (simp add: partial_x_def)
  have un: "unweighted_error f c = Inr (spec_residual f ?x)"
    using residual_fold [OF wf fit order_refl] by (simp add: unweighted_error_def partial_residual_0 partial_residual_all [OF wf])
  have "factor_error f c = Inr (1 / 2 * squaredNorm (whiten m (spec_residual f ?x)))"
    using un m by (simp add: factor_error_def error_vector_def ebind_def dot_self)
  with st un show ?thesis by blast
qed

text \<open>\<^verbatim>\<open>TEST(JacobianFactor, error)\<close>: the residual (2, 1, 0), whitened (4, 2, 0), error 10.\<close>

theorem factor_error_spec_witness:
  "wf_factor simple_factor \<and> values_fit simple_values simple_factor
   \<and> model simple_factor = Some (Diagonal_Sigmas [1 / 2, 1 / 2, 1 / 2])
   \<and> unweighted_error simple_factor simple_values = Inr [2, 1, 0]
   \<and> error_vector simple_factor simple_values = Inr [4, 2, 0]
   \<and> factor_error simple_factor simple_values = Inr 10"
proof -
  have h1: "wf_factor simple_factor"
    by code_simp
  have h2: "values_fit simple_values simple_factor"
    by code_simp
  have h3: "model simple_factor = Some (Diagonal_Sigmas [1 / 2, 1 / 2, 1 / 2])"
    by (simp add: simple_factor_def)
  have st: "stacked simple_values (factor_keys simple_factor)
              = Inr [1, 1, 1, 1 / 2, 1 / 2, 1 / 2, 1 / 3, 1 / 3, 1 / 3]"
    by code_simp
  have re: "spec_residual simple_factor [1, 1, 1, 1 / 2, 1 / 2, 1 / 2, 1 / 3, 1 / 3, 1 / 3]
              = [2, 1, 0]"
    by code_simp
  have wh: "1 / 2 * squaredNorm (whiten (Diagonal_Sigmas [1 / 2, 1 / 2, 1 / 2]) [2, 1, 0]) = 10"
    by (simp add: Diagonal_Sigmas_def squaredNorm_def)
  have ev: "error_vector simple_factor simple_values = Inr [4, 2, 0]"
    by code_simp
  from factor_error_spec [OF h1 h2 h3] st re wh
  have "unweighted_error simple_factor simple_values = Inr [2, 1, 0]
        \<and> factor_error simple_factor simple_values = Inr 10"
    by auto
  with h1 h2 h3 ev show ?thesis by simp
qed

section \<open>Properties of optimizeInPlace\<close>

lemma fst_frontal_vars: "map fst (frontal_vars c) = frontals c"
proof -
  have "map fst (frontal_vars c) = map ((!) (keys c)) [0 ..< length (frontals c)]"
    by (simp add: frontal_vars_def)
  also have "\<dots> = map ((!) (frontals c)) [0 ..< length (frontals c)]"
    by (simp add: frontals_def)
  also have "\<dots> = frontals c" by (rule map_nth)
  finally show ?thesis .
qed

lemma write_footprint:
  "writeVectorValuesSlices v x kns = Inr x' \<Longrightarrow>
   length x' = length x \<and> (\<forall>k. k \<notin> fst ` set kns \<longrightarrow> x' ! k = x ! k)"
proof (induction v x kns rule: writeVectorValuesSlices.induct)
  case (1 v x)
  then show ?case by (simp split: if_splits)
next
  case (2 v x k n kns)
  then show ?case by (auto split: if_splits)
qed

lemma write_read:
  "writeVectorValuesSlices v x kns = Inr x' \<Longrightarrow> distinct (map fst kns) \<Longrightarrow>
   extractVectorValuesSlices x' (map fst kns) = Inr v"
proof (induction v x kns rule: writeVectorValuesSlices.induct)
  case (1 v x)
  then show ?case by (simp split: if_splits)
next
  case (2 v x k n kns)
  from "2.prems"(1) have ok: "k < length x" "n \<le> length v"
    and w: "writeVectorValuesSlices (drop n v) (x[k := take n v]) kns = Inr x'"
    by (simp_all split: if_splits)
  from "2.prems"(2) have k: "k \<notin> fst ` set kns" and d: "distinct (map fst kns)"
    by auto
  have IH: "extractVectorValuesSlices x' (map fst kns) = Inr (drop n v)"
    using "2.IH" ok w d by simp
  from write_footprint [OF w] k ok have "length x' = length x" "x' ! k = take n v"
    by simp_all
  with IH ok show ?case by simp
qed

lemma extract_cong:
  "length x = length y \<Longrightarrow> \<forall>p \<in> set ks. x ! p = y ! p \<Longrightarrow>
   extractVectorValuesSlices x ks = extractVectorValuesSlices y ks"
  by (induction ks) (auto split: sum.splits)

lemma solveInPlace_footprint:
  assumes "solveInPlace c x = Inr x'"
  shows "length x' = length x" and "k \<notin> set (frontals c) \<Longrightarrow> x' ! k = x ! k"
proof -
  from assms obtain soln where "writeVectorValuesSlices soln x (frontal_vars c) = Inr x'"
    by (auto simp: solveInPlace_def ebind_def split: sum.splits)
  from write_footprint [OF this]
  have "length x' = length x" and "\<forall>k. k \<notin> set (map fst (frontal_vars c)) \<longrightarrow> x' ! k = x ! k"
    by simp_all
  then show "length x' = length x" and "k \<notin> set (frontals c) \<Longrightarrow> x' ! k = x ! k"
    by (simp_all add: fst_frontal_vars)
qed

lemma solve_all_footprint:
  "efoldl (\<lambda>x cg. solveInPlace cg x) x cs = Inr x' \<Longrightarrow>
   length x' = length x \<and> (\<forall>k. k \<notin> set (all_frontals cs) \<longrightarrow> x' ! k = x ! k)"
proof (induction cs arbitrary: x)
  case Nil
  then show ?case by simp
next
  case (Cons c cs)
  then obtain y where y: "solveInPlace c x = Inr y"
    and r: "efoldl (\<lambda>x cg. solveInPlace cg x) y cs = Inr x'"
    by (auto split: sum.splits)
  from Cons.IH [OF r] solveInPlace_footprint [OF y]
  show ?case by (auto simp: all_frontals_def)
qed

lemma optimizeInPlace_footprint:
  assumes "optimizeInPlace bn x = Inr x'"
  shows "length x' = length x" and "k \<notin> set (all_frontals bn) \<Longrightarrow> x' ! k = x ! k"
  using solve_all_footprint [of x "rev bn" x'] assms
  by (auto simp: optimizeInPlace_def all_frontals_def)

lemma optimizeInPlace_split:
  assumes "optimizeInPlace bn x = Inr x'" and "i < length bn"
  obtains xi xi' where "optimizeInPlace (drop (Suc i) bn) x = Inr xi"
    and "solveInPlace (bn ! i) xi = Inr xi'"
    and "optimizeInPlace (take i bn) xi' = Inr x'"
proof -
  have "bn = take i bn @ bn ! i # drop (Suc i) bn"
    using assms(2) by (rule id_take_nth_drop)
  then have "rev bn = rev (drop (Suc i) bn) @ (bn ! i # rev (take i bn))"
    by (metis rev.simps(2) rev_append append.assoc append_Cons append_Nil)
  with assms(1) show ?thesis
    using that
    by (auto simp: optimizeInPlace_def efoldl_append split: sum.splits)
qed

lemma all_frontals_split:
  assumes "i < length bn"
  shows "all_frontals bn = all_frontals (take i bn) @ frontals (bn ! i) @ later_frontals bn i"
proof -
  have "bn = take i bn @ bn ! i # drop (Suc i) bn"
    using assms by (rule id_take_nth_drop)
  then have "all_frontals bn = all_frontals (take i bn @ bn ! i # drop (Suc i) bn)"
    by simp
  then show ?thesis
    by (simp add: all_frontals_def later_frontals_def)
qed

lemma extract_ok:
  "map length x = vd \<Longrightarrow> list_all (\<lambda>k. k < length vd) ks \<Longrightarrow>
   \<exists>v. extractVectorValuesSlices x ks = Inr v \<and> length v = sum_list (map (\<lambda>k. vd ! k) ks)"
proof (induction ks)
  case Nil
  then show ?case by simp
next
  case (Cons k ks)
  then obtain v where v: "extractVectorValuesSlices x ks = Inr v"
    "length v = sum_list (map (\<lambda>k. vd ! k) ks)"
    by auto
  from Cons.prems have lx: "length x = length vd" and kv: "k < length vd"
    by (auto simp: length_map [symmetric] simp del: length_map)
  then have k: "k < length x" by simp
  have "map length x ! k = length (x ! k)" using k by (rule nth_map)
  with Cons.prems(1) have k': "length (x ! k) = vd ! k" by simp
  with v k show ?case by simp
qed

lemma write_ok:
  "map length x = vd \<Longrightarrow> list_all (\<lambda>k. k < length vd) ks \<Longrightarrow>
   length v = sum_list (map (\<lambda>k. vd ! k) ks) \<Longrightarrow>
   \<exists>x'. writeVectorValuesSlices v x (map (\<lambda>k. (k, vd ! k)) ks) = Inr x' \<and> map length x' = vd"
proof (induction ks arbitrary: v x)
  case Nil
  then show ?case by simp
next
  case (Cons k ks)
  from Cons.prems have k: "k < length x" and n: "vd ! k \<le> length v"
    and ks: "list_all (\<lambda>k. k < length vd) ks"
    and rest: "length (drop (vd ! k) v) = sum_list (map (\<lambda>k. vd ! k) ks)"
    by auto
  have "map length (x[k := take (vd ! k) v]) = (map length x)[k := vd ! k]"
    using n by (simp add: map_update min_def)
  also have "\<dots> = vd"
    using Cons.prems(1) by (metis list_update_id)
  finally have fit: "map length (x[k := take (vd ! k) v]) = vd" .
  from Cons.IH [OF fit ks rest] k n show ?case by simp
qed

lemma backsub_ok:
  "length rws = length ys \<Longrightarrow> length rws \<le> N \<Longrightarrow>
   (\<forall>j < length rws. length (rws ! j) = N \<and> rws ! j ! (N - (length rws - j)) \<noteq> 0) \<Longrightarrow>
   \<exists>xs. backSubstituteUpper rws ys = Inr xs \<and> length xs = length rws"
proof (induction rws arbitrary: ys)
  case Nil
  then show ?case by simp
next
  case (Cons row rws)
  from Cons.prems(1) obtain y ys' where ys: "ys = y # ys'" and l: "length rws = length ys'"
    by (cases ys) auto
  have tl: "\<forall>j < length rws. length (rws ! j) = N \<and> rws ! j ! (N - (length rws - j)) \<noteq> 0"
  proof (intro allI impI)
    fix j assume "j < length rws"
    then have "Suc j < length (row # rws)" by simp
    from Cons.prems(3) [rule_format, OF this] show
      "length (rws ! j) = N \<and> rws ! j ! (N - (length rws - j)) \<noteq> 0" by simp
  qed
  from Cons.prems(2) have "length rws \<le> N" by simp
  from Cons.IH [OF l this tl] obtain xs
    where xs: "backSubstituteUpper rws ys' = Inr xs" "length xs = length rws"
    by blast
  from Cons.prems(3) [rule_format, of 0]
  have row: "length row = N" "row ! (N - Suc (length rws)) \<noteq> 0" by simp_all
  from Cons.prems(2) have "Suc (length rws) \<le> N" by simp
  with xs row ys show ?case by (simp add: Let_def)
qed


lemma fits_structure:
  assumes fit: "conditional_fits vd c" and wf: "wf_conditional c"
  shows "R_cols c = sum_list (map (\<lambda>k. vd ! k) (frontals c))"
    and "block_offset c (length (keys c)) - R_cols c = sum_list (map (\<lambda>k. vd ! k) (parents c))"
    and "R_cols c \<le> block_offset c (length (keys c))"
    and "sum_list (rsd_dims c) = Suc (block_offset c (length (keys c)))"
    and "frontal_vars c = map (\<lambda>k. (k, vd ! k)) (frontals c)"
proof -
  let ?D = "map (\<lambda>k. vd ! k) (keys c)"
  from fit have dims: "rsd_dims c = ?D @ [1]" by (simp add: conditional_fits_def)
  from wf have n: "nrFrontals c \<le> length (keys c)" by (simp add: wf_conditional_def)
  have R: "R_cols c = sum_list (take (nrFrontals c) ?D)"
    using n by (simp add: R_cols_def block_offset_def dims)
  then show 1: "R_cols c = sum_list (map (\<lambda>k. vd ! k) (frontals c))"
    by (simp add: frontals_def take_map)
  have all: "block_offset c (length (keys c)) = sum_list ?D"
    by (simp add: block_offset_def dims)
  have "sum_list ?D = sum_list (take (nrFrontals c) ?D) + sum_list (drop (nrFrontals c) ?D)"
    by (metis append_take_drop_id sum_list_append)
  then have split: "block_offset c (length (keys c))
                      = R_cols c + sum_list (map (\<lambda>k. vd ! k) (parents c))"
    using all R by (simp add: parents_def drop_map)
  then show "block_offset c (length (keys c)) - R_cols c
               = sum_list (map (\<lambda>k. vd ! k) (parents c))"
    and "R_cols c \<le> block_offset c (length (keys c))"
    by simp_all
  show "sum_list (rsd_dims c) = Suc (block_offset c (length (keys c)))"
    using all by (simp add: dims)
  have len: "length (frontals c) = nrFrontals c" using n by (simp add: frontals_def)
  show "frontal_vars c = map (\<lambda>k. (k, vd ! k)) (frontals c)"
  proof (rule nth_equalityI)
    show "length (frontal_vars c) = length (map (\<lambda>k. (k, vd ! k)) (frontals c))"
      by (simp add: frontal_vars_def)
  next
    fix p assume "p < length (frontal_vars c)"
    then have p: "p < nrFrontals c" using len by (simp add: frontal_vars_def)
    with n have pk: "p < length (keys c)" by simp
    then have "dim c p = vd ! (keys c ! p)"
      by (simp add: dim_def dims nth_append)
    moreover have "frontals c ! p = keys c ! p" using p by (simp add: frontals_def)
    ultimately show "frontal_vars c ! p = map (\<lambda>k. (k, vd ! k)) (frontals c) ! p"
      using p len by (simp add: frontal_vars_def)
  qed
qed

lemma solve_frontals_ok:
  assumes fit: "conditional_fits vd c" and wf: "wf_conditional c"
    and xS: "length xS = sum_list (map (\<lambda>k. vd ! k) (parents c))"
  shows "\<exists>soln. solve_frontals c xS = Inr soln
           \<and> length soln = sum_list (map (\<lambda>k. vd ! k) (frontals c))"
proof -
  note st = fits_structure [OF fit wf]
  let ?N = "R_cols c"
  from fit have rows: "length (rsd c) = ?N"
    and width: "\<forall>row \<in> set (rsd c). length row = sum_list (rsd_dims c)"
    and piv: "\<forall>i < length (rsd c). rsd c ! i ! i \<noteq> 0"
    by (simp_all add: conditional_fits_def list_all_iff)
  have S: "list_all (\<lambda>row. length row = length xS) (get_S_all c)"
    using width st(2,3,4) xS by (auto simp: get_S_all_def list_all_iff)
  then have mv: "mat_vec (get_S_all c) xS = Inr (map (\<lambda>row. dot row xS) (get_S_all c))"
    by (simp add: mat_vec_def)
  have ld: "length (get_d c) = length (rsd c)"
    by (simp add: get_d_def col_of_def)
  have lS: "length (get_S_all c) = length (rsd c)"
    by (simp add: get_S_all_def)
  let ?rhs = "map2 (-) (get_d c) (map (\<lambda>row. dot row xS) (get_S_all c))"
  have vs: "vec_sub (get_d c) (map (\<lambda>row. dot row xS) (get_S_all c)) = Inr ?rhs"
    using ld lS by (simp add: vec_sub_def)
  have lr: "length (get_R c) = length ?rhs"
    using ld lS by (simp add: get_R_def)
  have lN: "length (get_R c) \<le> ?N"
    using rows by (simp add: get_R_def)
  have pv: "\<forall>j < length (get_R c). length (get_R c ! j) = ?N
              \<and> get_R c ! j ! (?N - (length (get_R c) - j)) \<noteq> 0"
  proof (intro allI impI)
    fix j assume j: "j < length (get_R c)"
    then have jr: "j < length (rsd c)" by (simp add: get_R_def)
    then have "rsd c ! j \<in> set (rsd c)" by simp
    with width st(3,4) have w: "?N \<le> length (rsd c ! j)" by auto
    have row: "get_R c ! j = take ?N (rsd c ! j)"
      using jr by (simp add: get_R_def R_cols_def)
    have "length (get_R c) = ?N" using rows by (simp add: get_R_def)
    moreover have "?N - (?N - j) = j" using jr rows by simp
    ultimately show "length (get_R c ! j) = ?N
        \<and> get_R c ! j ! (?N - (length (get_R c) - j)) \<noteq> 0"
      using row w piv jr rows by (simp add: min_def)
  qed
  from backsub_ok [OF lr lN pv] obtain soln
    where "backSubstituteUpper (get_R c) ?rhs = Inr soln" "length soln = length (get_R c)"
    by blast
  then show ?thesis
    using mv vs rows st(1) by (simp add: solve_frontals_def ebind_def get_R_def)
qed

lemma parents_frontals_bounds:
  assumes "conditional_fits vd c"
  shows "list_all (\<lambda>k. k < length vd) (parents c)" and "list_all (\<lambda>k. k < length vd) (frontals c)"
proof -
  from assms have "\<forall>k \<in> set (keys c). k < length vd"
    by (simp add: conditional_fits_def list_all_iff)
  then show "list_all (\<lambda>k. k < length vd) (parents c)"
    and "list_all (\<lambda>k. k < length vd) (frontals c)"
    by (auto simp: list_all_iff parents_def frontals_def dest: in_set_dropD in_set_takeD)
qed

lemma solveInPlace_ok:
  assumes fit: "conditional_fits vd c" and wf: "wf_conditional c"
    and x: "values_fit_dims vd x"
  shows "\<exists>x'. solveInPlace c x = Inr x' \<and> values_fit_dims vd x'"
proof -
  from x have xl: "map length x = vd" by (simp add: values_fit_dims_def)
  note b = parents_frontals_bounds [OF fit]
  from extract_ok [OF xl b(1)] obtain xS
    where xS: "extractVectorValuesSlices x (parents c) = Inr xS"
      "length xS = sum_list (map (\<lambda>k. vd ! k) (parents c))"
    by blast
  from solve_frontals_ok [OF fit wf xS(2)] obtain soln
    where soln: "solve_frontals c xS = Inr soln"
      "length soln = sum_list (map (\<lambda>k. vd ! k) (frontals c))"
    by blast
  from write_ok [OF xl b(2) soln(2)] obtain x'
    where "writeVectorValuesSlices soln x (map (\<lambda>k. (k, vd ! k)) (frontals c)) = Inr x'"
      "map length x' = vd"
    by blast
  with xS soln show ?thesis
    by (simp add: solveInPlace_def ebind_def fits_structure(5) [OF fit wf] values_fit_dims_def)
qed

lemma solve_all_ok:
  "list_all (conditional_fits vd) cs \<Longrightarrow> list_all wf_conditional cs \<Longrightarrow>
   values_fit_dims vd x \<Longrightarrow>
   \<exists>x'. efoldl (\<lambda>x cg. solveInPlace cg x) x cs = Inr x' \<and> values_fit_dims vd x'"
proof (induction cs arbitrary: x)
  case Nil
  then show ?case by simp
next
  case (Cons c cs)
  from Cons.prems solveInPlace_ok [of vd c x] obtain y
    where y: "solveInPlace c x = Inr y" "values_fit_dims vd y"
    by auto
  from Cons.IH [OF _ _ y(2)] Cons.prems obtain x'
    where "efoldl (\<lambda>x cg. solveInPlace cg x) y cs = Inr x'" "values_fit_dims vd x'"
    by auto
  with y show ?case by simp
qed

lemma optimizeInPlace_ok:
  assumes "list_all (conditional_fits vd) bn" and "wf_bayes_net bn" and "values_fit_dims vd x"
  shows "\<exists>x'. optimizeInPlace bn x = Inr x'"
proof -
  from assms(2) have "list_all wf_conditional (rev bn)"
    by (simp add: wf_bayes_net_def list_all_iff)
  moreover from assms(1) have "list_all (conditional_fits vd) (rev bn)"
    by (simp add: list_all_iff)
  ultimately show ?thesis
    using solve_all_ok [of vd "rev bn" x] assms(3) by (auto simp: optimizeInPlace_def)
qed

text \<open>
  C4. On a well formed Bayes net whose conditionals fit the dimensions of the variables
  and have non-zero pivots, and on values of these dimensions, \<^verbatim>\<open>optimizeInPlace\<close>
  returns, and it solves the conditionals from the last stored to the first: the
  conditional at position \<open>i\<close> is solved in the state \<open>xi\<close> that solving exactly the
  conditionals stored after it has left, and those stored before it follow. Every parent
  of this conditional that the net solves at all is the frontal of a conditional stored
  later, so its value is solved by then. The values \<open>xS\<close> of the parents read at that
  moment are their values in the result, and the values of the frontals in the result are
  the back-substitution solution for these parent values.
\<close>

theorem optimizeInPlace_parents_first:
  assumes wf: "wf_bayes_net bn" and fits: "list_all (conditional_fits vd) bn"
    and x: "values_fit_dims vd x" and i: "i < length bn"
  shows "\<exists>x' xi xi' xS soln.
           optimizeInPlace bn x = Inr x'
         \<and> optimizeInPlace (drop (Suc i) bn) x = Inr xi
         \<and> solveInPlace (bn ! i) xi = Inr xi'
         \<and> optimizeInPlace (take i bn) xi' = Inr x'
         \<and> list_all (\<lambda>p. p \<in> set (all_frontals bn) \<longrightarrow> p \<in> set (later_frontals bn i))
              (parents (bn ! i))
         \<and> extractVectorValuesSlices xi (parents (bn ! i)) = Inr xS
         \<and> extractVectorValuesSlices x' (parents (bn ! i)) = Inr xS
         \<and> solve_frontals (bn ! i) xS = Inr soln
         \<and> extractVectorValuesSlices x' (frontals (bn ! i)) = Inr soln"
proof -
  let ?c = "bn ! i"
  from optimizeInPlace_ok [OF fits wf x] obtain x'
    where ok: "optimizeInPlace bn x = Inr x'"
    by blast
  from optimizeInPlace_split [OF ok i] obtain xi xi'
    where later: "optimizeInPlace (drop (Suc i) bn) x = Inr xi"
      and this_one: "solveInPlace ?c xi = Inr xi'"
      and earlier: "optimizeInPlace (take i bn) xi' = Inr x'"
    by blast
  from wf i have wfc: "wf_conditional ?c"
    by (simp add: wf_bayes_net_def list_all_length)
  from wf have "distinct (all_frontals bn)"
    by (simp add: wf_bayes_net_def)
  then have dist:
    "distinct (all_frontals (take i bn) @ frontals ?c @ later_frontals bn i)"
    using all_frontals_split [OF i] by simp
  from wf i have par:
    "\<forall>p \<in> set (parents ?c). p \<in> set (later_frontals bn i) \<or> p \<notin> set (all_frontals bn)"
    by (simp add: wf_bayes_net_def list_all_iff)
  have keys: "keys ?c = frontals ?c @ parents ?c"
    by (simp add: frontals_def parents_def)
  from wfc have "distinct (frontals ?c @ parents ?c)"
    using keys by (simp add: wf_conditional_def)
  then have dfr: "distinct (frontals ?c)"
    and pf: "\<forall>p \<in> set (parents ?c). p \<notin> set (frontals ?c)"
    by auto
  have pe: "\<forall>p \<in> set (parents ?c). p \<notin> set (all_frontals (take i bn))"
    using par dist all_frontals_split [OF i] by auto
  have fe: "\<forall>f \<in> set (frontals ?c). f \<notin> set (all_frontals (take i bn))"
    using dist by auto
  from this_one obtain xS soln
    where ex: "extractVectorValuesSlices xi (parents ?c) = Inr xS"
      and sv: "solve_frontals ?c xS = Inr soln"
      and wr: "writeVectorValuesSlices soln xi (frontal_vars ?c) = Inr xi'"
    by (auto simp: solveInPlace_def ebind_def split: sum.splits)
  have len1: "length xi' = length xi"
    using solveInPlace_footprint(1) [OF this_one] .
  have len2: "length x' = length xi'"
    using optimizeInPlace_footprint(1) [OF earlier] .
  have p_same: "\<forall>p \<in> set (parents ?c). x' ! p = xi ! p"
    using optimizeInPlace_footprint(2) [OF earlier] solveInPlace_footprint(2) [OF this_one]
      pe pf by simp
  have ex': "extractVectorValuesSlices x' (parents ?c) = Inr xS"
    using extract_cong [of x' xi "parents ?c"] p_same len1 len2 ex by simp
  have "extractVectorValuesSlices xi' (map fst (frontal_vars ?c)) = Inr soln"
    using wr dfr by (intro write_read) (simp_all add: fst_frontal_vars)
  then have rd: "extractVectorValuesSlices xi' (frontals ?c) = Inr soln"
    by (simp add: fst_frontal_vars)
  have f_same: "\<forall>f \<in> set (frontals ?c). x' ! f = xi' ! f"
    using optimizeInPlace_footprint(2) [OF earlier] fe by simp
  have rd': "extractVectorValuesSlices x' (frontals ?c) = Inr soln"
    using extract_cong [of x' xi' "frontals ?c"] f_same len2 rd by simp
  have solved: "list_all (\<lambda>p. p \<in> set (all_frontals bn) \<longrightarrow> p \<in> set (later_frontals bn i))
                  (parents ?c)"
    using par by (auto simp: list_all_iff)
  from ok later this_one earlier solved ex ex' sv rd' show ?thesis
    by blast
qed

text \<open>
  A chain of three conditionals over four scalar variables: the root gives \<open>x3 = 2\<close>, the
  conditional stored second gives \<open>x2 = 5 - x3 = 3\<close> from it, and the conditional stored
  first gives \<open>x1 = (7 - 6 x2) / 5\<close> and \<open>x0 = 4 - 2 x1 - 3 x2\<close> from that.
\<close>

theorem optimizeInPlace_parents_first_witness:
  "wf_bayes_net chain_bn
   \<and> list_all (conditional_fits [1, 1, 1, 1]) chain_bn
   \<and> values_fit_dims [1, 1, 1, 1] [[0], [0], [0], [0]]
   \<and> 1 < length chain_bn
   \<and> optimizeInPlace chain_bn [[0], [0], [0], [0]] = Inr [[- 3 / 5], [- 11 / 5], [3], [2]]
   \<and> optimizeInPlace (drop 2 chain_bn) [[0], [0], [0], [0]] = Inr [[0], [0], [0], [2]]
   \<and> solve_frontals (chain_bn ! 1) [2] = Inr [3]"
proof -
  have h1: "wf_bayes_net chain_bn"
    by code_simp
  have h2: "list_all (conditional_fits [1, 1, 1, 1]) chain_bn"
    by code_simp
  have h3: "values_fit_dims [1, 1, 1, 1] [[0], [0], [0], [0]]"
    by (simp add: values_fit_dims_def)
  have h4: "1 < length chain_bn"
    by (simp add: chain_bn_def)
  have r: "optimizeInPlace chain_bn [[0], [0], [0], [0]] = Inr [[- 3 / 5], [- 11 / 5], [3], [2]]"
    by code_simp
  have l: "optimizeInPlace (drop 2 chain_bn) [[0], [0], [0], [0]] = Inr [[0], [0], [0], [2]]"
    by code_simp
  have p: "extractVectorValuesSlices [[- 3 / 5], [- 11 / 5], [3], [2]] (parents (chain_bn ! 1))
             = Inr [2]"
    by code_simp
  have f: "extractVectorValuesSlices [[- 3 / 5], [- 11 / 5], [3], [2]] (frontals (chain_bn ! 1))
             = Inr [3]"
    by code_simp
  from optimizeInPlace_parents_first [OF h1 h2 h3 h4] r p f
  have "solve_frontals (chain_bn ! 1) [2] = Inr [3]"
    by auto
  with h1 h2 h3 h4 r l show ?thesis by simp
qed

section \<open>Properties of matrix\<close>

lemma set_coeff_lower_zero:
  assumes "set_coeff R r c v = Inr R'" and "lower_zero N R" and "c < r \<Longrightarrow> v = Fin 0"
  shows "lower_zero N R'"
proof -
  from assms(1) have rc: "r < length R" "c < length (R ! r)"
    and R': "R' = R[r := (R ! r)[c := v]]"
    by (auto simp: set_coeff_def split: if_splits)
  from assms(2) have len: "length R = N" and rows: "\<And>q. q < N \<Longrightarrow> length (R ! q) = N"
    and low: "\<And>q p. q < N \<Longrightarrow> p < q \<Longrightarrow> R ! q ! p = Fin 0"
    by (simp_all add: lower_zero_def)
  have 1: "length R' = N" using len R' by simp
  have 2: "length (R' ! q) = N" if "q < N" for q
    using that rows [OF that] len R' by (cases "q = r") simp_all
  have 3: "R' ! q ! p = Fin 0" if "q < N" "p < q" for q p
  proof (cases "q = r")
    case True
    show ?thesis
    proof (cases "p = c")
      case True
      with \<open>q = r\<close> that assms(3) rc len show ?thesis by (simp add: R')
    next
      case False
      with \<open>q = r\<close> that low [OF that] len show ?thesis by (simp add: R')
    qed
  next
    case False
    with that low [OF that] len show ?thesis by (simp add: R')
  qed
  show ?thesis unfolding lower_zero_def using 1 2 3 by blast
qed


lemma copy_block_lower_zero:
  assumes "copy_block B sigs I J m n R = Inr R'" and "lower_zero N R"
    and "\<And>a b. a < m \<Longrightarrow> b < n \<Longrightarrow> J + b < I + a \<Longrightarrow> a < length sigs \<Longrightarrow>
           a < length B \<Longrightarrow> b < length (B ! a) \<Longrightarrow> div_d (B ! a ! b) (sigs ! a) = Fin 0"
  shows "lower_zero N R'"
proof (rule efoldl_invariant [where P = "lower_zero N", OF assms(1) [unfolded copy_block_def] assms(2)])
  fix R1 ij R2
  assume inv: "lower_zero N R1" and ij: "ij \<in> set (List.product [0 ..< m] [0 ..< n])"
    and step: "ebind (coeff B (fst ij) (snd ij)) (\<lambda>a.
               ebind (vcoeff sigs (fst ij)) (\<lambda>s.
                 set_coeff R1 (I + fst ij) (J + snd ij) (div_d a s))) = Inr R2"
  from ij have lt: "fst ij < m" "snd ij < n" by auto
  from step have rd: "fst ij < length B" "snd ij < length (B ! fst ij)" "fst ij < length sigs"
    and w: "set_coeff R1 (I + fst ij) (J + snd ij)
              (div_d (B ! fst ij ! snd ij) (sigs ! fst ij)) = Inr R2"
    by (auto simp: ebind_def coeff_def vcoeff_def split: sum.splits if_splits)
  have z: "div_d (B ! fst ij ! snd ij) (sigs ! fst ij) = Fin 0" if "J + snd ij < I + fst ij"
    using assms(3) [OF lt that rd(3) rd(1) rd(2)] .
  show "lower_zero N R2"
    by (rule set_coeff_lower_zero [OF w inv z])
qed


lemma single_frontal:
  assumes "wf_single_frontal cg"
  shows "frontals cg = [frontal_key cg]" and "frontal_vars cg = [(frontal_key cg, dim cg 0)]"
proof -
  from assms have n: "nrFrontals cg = 1" and k: "keys cg \<noteq> []"
    by (simp_all add: wf_single_frontal_def)
  then obtain x xs where xs: "keys cg = x # xs" by (cases "keys cg") auto
  show "frontals cg = [frontal_key cg]"
    using n xs by (simp add: frontals_def frontal_key_def)
  then show "frontal_vars cg = [(frontal_key cg, dim cg 0)]"
    by (simp add: frontal_vars_def frontal_key_def)
qed

lemma offsets_snoc:
  "offsets (bn @ [cg]) = foldl insert_offset (offsets bn) (frontal_vars cg)"
  by (simp add: offsets_def)

lemma offset_of_Suc:
  "i < length bn \<Longrightarrow> offset_of bn (Suc i) = offset_of bn i + dim (bn ! i) 0"
  by (simp add: offset_of_def take_Suc_conv_app_nth)

lemma sum_list_take_le: "sum_list (take n (xs :: nat list)) \<le> sum_list xs"
proof -
  have "sum_list (take n xs @ drop n xs) = sum_list (take n xs) + sum_list (drop n xs)"
    by (rule sum_list_append)
  then show ?thesis by simp
qed

lemma offset_of_mono:
  assumes "i \<le> j"
  shows "offset_of bn i \<le> offset_of bn j"
proof -
  have "take i (map (\<lambda>cg. dim cg 0) (take j bn)) = map (\<lambda>cg. dim cg 0) (take i bn)"
    using assms by (simp add: take_map min_def)
  then show ?thesis
    using sum_list_take_le [of i "map (\<lambda>cg. dim cg 0) (take j bn)"]
    by (simp add: offset_of_def)
qed

lemma offsets_single:
  assumes "list_all wf_single_frontal bn" and "distinct (map frontal_key bn)"
  shows "snd (offsets bn) = offset_of bn (length bn)
         \<and> (\<forall>i < length bn. fst (offsets bn) (frontal_key (bn ! i)) = Some (offset_of bn i))
         \<and> dom (fst (offsets bn)) = frontal_key ` set bn"
  using assms
proof (induction bn rule: rev_induct)
  case Nil
  show ?case by (simp add: offsets_def offset_of_def)
next
  case (snoc cg bn)
  from snoc.prems have wf: "list_all wf_single_frontal bn" and wfc: "wf_single_frontal cg"
    and d: "distinct (map frontal_key bn)" and new: "frontal_key cg \<notin> frontal_key ` set bn"
    by simp_all
  note IH = snoc.IH [OF wf d]
  let ?m = "fst (offsets bn)"
  from IH new have none: "?m (frontal_key cg) = None" by blast
  have off: "offsets (bn @ [cg])
               = (?m(frontal_key cg \<mapsto> snd (offsets bn)), snd (offsets bn) + dim cg 0)"
    using none by (simp add: offsets_snoc single_frontal(2) [OF wfc] insert_offset_def)
  have total: "offset_of (bn @ [cg]) (length (bn @ [cg])) = offset_of bn (length bn) + dim cg 0"
    by (simp add: offset_of_def)
  have 1: "snd (offsets (bn @ [cg])) = offset_of (bn @ [cg]) (length (bn @ [cg]))"
    using off IH total by simp
  have 2: "fst (offsets (bn @ [cg])) (frontal_key ((bn @ [cg]) ! i))
             = Some (offset_of (bn @ [cg]) i)" if "i < length (bn @ [cg])" for i
  proof (cases "i < length bn")
    case True
    then have "frontal_key (bn ! i) \<in> frontal_key ` set bn" by simp
    with new have "frontal_key (bn ! i) \<noteq> frontal_key cg" by auto
    with True IH off show ?thesis
      by (simp add: nth_append offset_of_def)
  next
    case False
    with that have "i = length bn" by simp
    with off IH show ?thesis by (simp add: offset_of_def)
  qed
  have 3: "dom (fst (offsets (bn @ [cg]))) = frontal_key ` set (bn @ [cg])"
    using off IH by auto
  from 1 2 3 show ?case by blast
qed

lemma find_frontal:
  assumes "list_all wf_single_frontal bn" and "distinct (map frontal_key bn)"
    and "i < length bn"
  shows "find (\<lambda>cg. frontal_key (bn ! i) \<in> set (frontals cg)) bn = Some (bn ! i)"
  using assms
proof (induction bn arbitrary: i)
  case Nil
  then show ?case by simp
next
  case (Cons c bn)
  from Cons.prems(1) have fc: "frontals c = [frontal_key c]"
    by (simp add: single_frontal(1))
  show ?case
  proof (cases i)
    case 0
    then show ?thesis using fc by simp
  next
    case (Suc j)
    with Cons.prems have j: "j < length bn" by simp
    then have "frontal_key (bn ! j) \<in> frontal_key ` set bn" by simp
    with Cons.prems(2) have "frontal_key (bn ! j) \<noteq> frontal_key c" by auto
    with Cons.IH [of j] Cons.prems Suc fc j show ?thesis by simp
  qed
qed


lemma later_frontal:
  assumes "p \<in> set (map frontal_key (drop (Suc i) bn))"
  obtains j where "i < j" and "j < length bn" and "p = frontal_key (bn ! j)"
proof -
  from assms obtain k where k: "k < length (drop (Suc i) bn)"
    and p: "p = frontal_key (drop (Suc i) bn ! k)"
    by (auto simp: in_set_conv_nth)
  from k have "Suc i + k < length bn" by simp
  moreover from k p have "p = frontal_key (bn ! (Suc i + k))" by simp
  ultimately show ?thesis using that [of "Suc i + k"] by simp
qed

lemma parent_vars_parent:
  assumes "pkv \<in> set (parent_vars cg)"
  shows "fst (snd pkv) \<in> set (parents cg)" and "snd (snd pkv) = dim cg (fst pkv)"
proof -
  from assms obtain p where p: "length (frontals cg) \<le> p" "p < length (keys cg)"
    and pkv: "pkv = (p, keys cg ! p, dim cg p)"
    by (auto simp: parent_vars_def)
  from p have n: "nrFrontals cg \<le> p"
    by (simp add: frontals_def min_def split: if_splits)
  then have "drop (nrFrontals cg) (keys cg) ! (p - nrFrontals cg) = keys cg ! p"
    using p by simp
  moreover have "p - nrFrontals cg < length (drop (nrFrontals cg) (keys cg))"
    using p n by simp
  ultimately have "keys cg ! p \<in> set (drop (nrFrontals cg) (keys cg))"
    by (metis nth_mem)
  then show "fst (snd pkv) \<in> set (parents cg)"
    by (simp add: pkv parents_def)
  show "snd (snd pkv) = dim cg (fst pkv)"
    by (simp add: pkv)
qed


lemma wf_net_parts:
  assumes "wf_single_frontal_net bn"
  shows "list_all wf_single_frontal bn" and "distinct (map frontal_key bn)"
    and "i < length bn \<Longrightarrow> p \<in> set (parents (bn ! i)) \<Longrightarrow>
           p \<in> set (map frontal_key (drop (Suc i) bn))"
  using assms by (auto simp: wf_single_frontal_net_def list_all_iff)

lemma copy_S_inv:
  assumes wf: "wf_single_frontal_net bn" and i: "i < length bn"
    and pkv: "pkv \<in> set (parent_vars (bn ! i))"
    and mp: "mapping st = fst (offsets bn)" and low: "lower_zero N (R_acc st)"
    and step: "copy_S (bn ! i) (offset_of bn i) st pkv = Inr st'"
  shows "mapping st' = fst (offsets bn) \<and> lower_zero N (R_acc st')"
proof -
  let ?cg = "bn ! i" and ?keyS = "fst (snd pkv)"
  note offs = offsets_single [OF wf_net_parts(1,2) [OF wf]]
  from parent_vars_parent(1) [OF pkv] wf_net_parts(3) [OF wf i]
  have "?keyS \<in> set (map frontal_key (drop (Suc i) bn))" by simp
  then obtain j where j: "i < j" "j < length bn" and k: "?keyS = frontal_key (bn ! j)"
    by (rule later_frontal)
  from offs j k have hit: "fst (offsets bn) ?keyS = Some (offset_of bn j)" by simp
  from wf_net_parts(1) [OF wf] i have wfc: "wf_single_frontal ?cg"
    by (simp add: list_all_length)
  then have rows: "length (rsd ?cg) = dim ?cg 0"
    by (simp add: wf_single_frontal_def)
  have "offset_of bn (Suc i) \<le> offset_of bn j"
    using j by (intro offset_of_mono) simp
  then have above: "offset_of bn i + length (rsd ?cg) \<le> offset_of bn j"
    using offset_of_Suc [OF i] rows by simp
  from step hit mp obtain R' where
    cb: "copy_block (get_S ?cg (fst pkv)) (get_sigmas ?cg) (offset_of bn i) (offset_of bn j)
           (length (get_S ?cg (fst pkv))) (dim ?cg (fst pkv)) (R_acc st) = Inr R'"
    and st': "st' = st\<lparr> mapping := mapping st, R_acc := R' \<rparr>"
    by (auto simp: copy_S_def Let_def ebind_def split: sum.splits)
  have m: "length (get_S ?cg (fst pkv)) = length (rsd ?cg)"
    by (simp add: get_S_def)
  have "lower_zero N R'"
  proof (rule copy_block_lower_zero [OF cb low])
    fix a b
    assume "a < length (get_S ?cg (fst pkv))" and "offset_of bn j + b < offset_of bn i + a"
    with above m have False by simp
    then show "div_d (get_S ?cg (fst pkv) ! a ! b) (get_sigmas ?cg ! a) = Fin 0" ..
  qed
  with st' mp show ?thesis by simp
qed

lemma visit_key_inv:
  assumes wf: "wf_single_frontal_net bn"
    and mp: "mapping st = fst (offsets bn)" and low: "lower_zero N (R_acc st)"
    and step: "visit_key bn st key = Inr st'"
  shows "mapping st' = fst (offsets bn) \<and> lower_zero N (R_acc st')"
proof (cases "mapping st key")
  case None
  with step mp low show ?thesis by (simp add: visit_key_def)
next
  case (Some I)
  note offs = offsets_single [OF wf_net_parts(1,2) [OF wf]]
  from Some mp have "key \<in> dom (fst (offsets bn))" by auto
  with offs obtain i where i: "i < length bn" and key: "key = frontal_key (bn ! i)"
    by (auto simp: in_set_conv_nth)
  with offs Some mp have I: "I = offset_of bn i" by simp
  let ?cg = "bn ! i"
  have look: "bn_lookup bn key = Inr ?cg"
    using find_frontal [OF wf_net_parts(1,2) [OF wf] i] key by (simp add: bn_lookup_def)
  from wf_net_parts(1) [OF wf] i have wfc: "wf_single_frontal ?cg"
    by (simp add: list_all_length)
  have n: "length (get_d ?cg) = length (rsd ?cg)"
    by (simp add: get_d_def col_of_def)
  from step Some look I n obtain d1 R1 where
    cb: "copy_block (get_R ?cg) (get_sigmas ?cg) (offset_of bn i) (offset_of bn i)
           (length (rsd ?cg)) (length (rsd ?cg)) (R_acc st) = Inr R1"
    and rest: "efoldl (copy_S ?cg (offset_of bn i)) (st\<lparr> R_acc := R1, d_acc := d1 \<rparr>)
                 (parent_vars ?cg) = Inr st'"
    by (auto simp: visit_key_def Let_def ebind_def split: sum.splits)
  have low1: "lower_zero N R1"
  proof (rule copy_block_lower_zero [OF cb low])
    fix a b
    assume a: "a < length (rsd ?cg)" and "offset_of bn i + b < offset_of bn i + a"
      and s: "a < length (get_sigmas ?cg)"
    then have ba: "b < a" by simp
    from wfc a ba have "get_R ?cg ! a ! b = 0"
      by (simp add: wf_single_frontal_def list_all_iff)
    moreover from wfc s have "get_sigmas ?cg ! a \<noteq> 0"
      by (simp add: wf_single_frontal_def list_all_length get_sigmas_def)
    ultimately show "div_d (get_R ?cg ! a ! b) (get_sigmas ?cg ! a) = Fin 0"
      by (simp add: div_d_def)
  qed
  let ?P = "\<lambda>s. mapping s = fst (offsets bn) \<and> lower_zero N (R_acc s)"
  have start: "?P (st\<lparr> R_acc := R1, d_acc := d1 \<rparr>)"
    using mp low1 by simp
  show ?thesis
  proof (rule efoldl_invariant [where P = ?P, OF rest start])
    fix s pkv s'
    assume "?P s" and "pkv \<in> set (parent_vars ?cg)"
      and "copy_S ?cg (offset_of bn i) s pkv = Inr s'"
    then show "?P s'"
      using copy_S_inv [OF wf i, of pkv s N s'] by simp
  qed
qed

lemma lower_zero_upper_triangular: "lower_zero N R \<Longrightarrow> upper_triangular R"
  by (simp add: lower_zero_def upper_triangular_def list_all_iff)

text \<open>
  On a Bayes net of conditionals with one frontal variable each, the matrix \<open>R\<close> that
  \<^verbatim>\<open>matrix\<close> returns is upper-triangular: the block of a conditional is copied to the
  rows and columns of its frontal, where it is upper-triangular, and the blocks of its
  parents are copied to the right of it.
\<close>

theorem matrix_single_frontal_upper_triangular:
  assumes wf: "wf_single_frontal_net bn" and ok: "matrix uninit bn = Inr (R, d)"
  shows "upper_triangular R"
proof -
  let ?N = "snd (offsets bn)"
  let ?P = "\<lambda>s. mapping s = fst (offsets bn) \<and> lower_zero ?N (R_acc s)"
  from ok obtain st where
    run: "efoldl (visit_key bn)
            \<lparr> mapping = fst (offsets bn), R_acc = replicate ?N (replicate ?N (Fin 0)),
              d_acc = replicate ?N uninit \<rparr>
            (sort (remdups (concat (map keys bn)))) = Inr st"
    and R: "R = R_acc st"
    by (auto simp: matrix_def Let_def ebind_def split: sum.splits)
  have start: "?P \<lparr> mapping = fst (offsets bn), R_acc = replicate ?N (replicate ?N (Fin 0)),
                    d_acc = replicate ?N uninit \<rparr>"
    by (simp add: lower_zero_def)
  have "?P st"
  proof (rule efoldl_invariant [where P = ?P, OF run start])
    fix s key s'
    assume "?P s" and "visit_key bn s key = Inr s'"
    then show "?P s'"
      using visit_key_inv [OF wf, of s ?N key s'] by simp
  qed
  then show ?thesis
    using R lower_zero_upper_triangular by blast
qed

text \<open>
  The net of the conditionals \<open>2 x0 + x1 = 4\<close> and \<open>x1 = 2\<close> with the sigmas 1 and
  1/2: \<open>R\<close> is ((2, 1), (0, 2)) and \<open>d\<close> is (4, 4).
\<close>

lemma matrix_single_frontal_example:
  "wf_single_frontal_net single_frontal_bn
   \<and> matrix NaN single_frontal_bn = Inr ([[Fin 2, Fin 1], [Fin 0, Fin 2]], [Fin 4, Fin 4])
   \<and> upper_triangular [[Fin 2, Fin 1], [Fin 0, Fin 2]]"
  by code_simp

text \<open>
  A zero sigma divides the zeros below the diagonal of its own block too: for the
  constrained conditional \<open>x = (1.2, 3.4)\<close> on one variable of dimension 2 the entry at
  row 1, column 0 is 0/0.
\<close>

lemma matrix_constrained_nan:
  "matrix NaN [constrained_conditional]
     = Inr ([[PInf, NaN], [NaN, PInf]], [PInf, PInf])"
  by code_simp

text \<open>
  C5. The matrix \<open>R\<close> that \<^verbatim>\<open>matrix\<close> returns is upper-triangular for a Bayes net of
  conditionals with one frontal variable each, but not for every Bayes net: the first loop
  gives every frontal variable of a conditional its own offset, and the second loop copies
  the whole conditional at the offset of each of its frontals. On the well formed net
  below, the second frontal of the first conditional puts the last row of its \<open>S\<close> block
  at row 4, column 3, below the diagonal.
\<close>

theorem matrix_two_frontal_not_upper_triangular:
  "wf_bayes_net two_frontal_bn
   \<and> matrix NaN two_frontal_bn
       = Inr ([[Fin 1, Fin 0, Fin 0, Fin 1, Fin 0],
               [Fin 0, Fin 1, Fin 0, Fin 1, Fin 0],
               [Fin 0, Fin 0, Fin 1, Fin 1, Fin 0],
               [Fin 0, Fin 0, Fin 0, Fin 1, Fin 0],
               [Fin 0, Fin 0, Fin 0, Fin 1, Fin 1]],
              [Fin 0, Fin 0, Fin 0, Fin 0, Fin 0])
   \<and> \<not> upper_triangular
         [[Fin 1, Fin 0, Fin 0, Fin 1, Fin 0],
          [Fin 0, Fin 1, Fin 0, Fin 1, Fin 0],
          [Fin 0, Fin 0, Fin 1, Fin 1, Fin 0],
          [Fin 0, Fin 0, Fin 0, Fin 1, Fin 0],
          [Fin 0, Fin 0, Fin 0, Fin 1, Fin 1]]"
  by code_simp

section \<open>Properties of determinant\<close>

text \<open>Not a number is absorbing, whatever the arithmetic.\<close>

lemma add_fp_NaN [simp]: "add_fp fp NaN a = NaN" "add_fp fp a NaN = NaN"
  by (cases a; simp)+

lemma foldl_add_fp_NaN: "foldl (add_fp fp) NaN ls = NaN"
  by (induction ls) simp_all

lemma foldl_add_fp_contains_NaN: "NaN \<in> set ls \<Longrightarrow> foldl (add_fp fp) a ls = NaN"
proof (induction ls arbitrary: a)
  case Nil
  then show ?case by simp
next
  case (Cons l ls)
  show ?case
  proof (cases "l = NaN")
    case True
    then show ?thesis by (simp add: foldl_add_fp_NaN)
  next
    case False
    with Cons.prems have "NaN \<in> set ls" by simp
    then show ?thesis using Cons.IH by simp
  qed
qed

lemma log_sum_negative:
  assumes "\<exists>r \<in> set v. r < 0"
  shows "log_sum fp v = NaN"
proof -
  from assms have n: "NaN \<in> set (map (log_fp fp) v)"
    by (force simp: log_fp_def)
  show ?thesis
  proof (cases "map (log_fp fp) v")
    case Nil
    with n show ?thesis by simp
  next
    case (Cons l ls)
    show ?thesis
    proof (cases "l = NaN")
      case True
      with Cons show ?thesis by (simp add: log_sum_def foldl_add_fp_NaN)
    next
      case False
      with n Cons have "NaN \<in> set ls" by simp
      then show ?thesis using Cons by (simp add: log_sum_def foldl_add_fp_contains_NaN)
    qed
  qed
qed

lemma log_det_NaN:
  "foldl (\<lambda>logDet cg. add_fp fp logDet (log_sum fp (diagonal (get_R cg)))) NaN bn = NaN"
  by (induction bn) simp_all

lemma log_det_negative:
  "\<exists>r \<in> set (bn_diagonals bn). r < 0 \<Longrightarrow>
   foldl (\<lambda>logDet cg. add_fp fp logDet (log_sum fp (diagonal (get_R cg)))) a bn = NaN"
proof (induction bn arbitrary: a)
  case Nil
  then show ?case by (simp add: bn_diagonals_def)
next
  case (Cons cg bn)
  show ?case
  proof (cases "\<exists>r \<in> set (diagonal (get_R cg)). r < 0")
    case True
    then have "log_sum fp (diagonal (get_R cg)) = NaN" by (rule log_sum_negative)
    then show ?thesis by (simp add: log_det_NaN)
  next
    case False
    with Cons.prems have "\<exists>r \<in> set (bn_diagonals bn). r < 0"
      by (auto simp: bn_diagonals_def)
    then show ?thesis using Cons.IH by simp
  qed
qed

text \<open>In the exact arithmetic the sums are those of the extended reals.\<close>

lemma exact_arithmetic_simps [simp]:
  "fp_add exact_arithmetic a b = Fin (a + b)"
  "fp_log exact_arithmetic a = Fin (ln a)"
  "fp_exp exact_arithmetic a = Fin (exp a)"
  by (simp_all add: exact_arithmetic_def)

lemma log_exact_nonneg:
  "0 \<le> r \<Longrightarrow> log_fp exact_arithmetic r = (if r = 0 then MInf else Fin (ln r))"
  by (simp add: log_fp_def)

lemma add_exact_MInf_fold:
  "list_all (\<lambda>r. 0 \<le> r) v \<Longrightarrow>
   foldl (add_fp exact_arithmetic) MInf (map (log_fp exact_arithmetic) v) = MInf"
  by (induction v) (simp_all add: log_exact_nonneg)

lemma log_fold_nonneg:
  "list_all (\<lambda>r. 0 \<le> r) v \<Longrightarrow>
   foldl (add_fp exact_arithmetic) (Fin a) (map (log_fp exact_arithmetic) v) =
     (if 0 \<in> set v then MInf else Fin (a + sum_list (map ln v)))"
proof (induction v arbitrary: a)
  case Nil
  then show ?case by simp
next
  case (Cons r v)
  then have v: "list_all (\<lambda>r. 0 \<le> r) v" and r: "0 \<le> r" by simp_all
  show ?case
  proof (cases "r = 0")
    case True
    then show ?thesis using v by (simp add: log_exact_nonneg add_exact_MInf_fold)
  next
    case False
    then show ?thesis using r Cons.IH [OF v] by (simp add: log_exact_nonneg add.assoc)
  qed
qed

lemma exp_sum_ln: "list_all (\<lambda>r. 0 < r) v \<Longrightarrow> exp (sum_list (map ln v)) = prod_list (v :: real list)"
proof (induction v)
  case Nil
  then show ?case by simp
next
  case (Cons r v)
  then have r: "0 < r" and IH: "exp (sum_list (map ln v)) = prod_list v" by simp_all
  have "exp (ln r + sum_list (map ln v)) = exp (ln r) * exp (sum_list (map ln v))"
    by (rule exp_add)
  also have "\<dots> = r * prod_list v" using r IH by simp
  finally show ?case by simp
qed

lemma exp_log_sum:
  assumes "list_all (\<lambda>r. 0 \<le> r) v"
  shows "exp_fp exact_arithmetic
           (foldl (add_fp exact_arithmetic) (Fin 0) (map (log_fp exact_arithmetic) v))
         = Fin (prod_list v)"
proof (cases "0 \<in> set v")
  case True
  then have "prod_list v = 0" by (simp add: prod_list_zero_iff)
  with True assms show ?thesis by (simp add: log_fold_nonneg)
next
  case False
  with assms have "list_all (\<lambda>r. 0 < r) v"
    by (auto simp: list_all_iff less_le)
  with False assms show ?thesis
    by (simp add: log_fold_nonneg exp_sum_ln)
qed

lemma add_exact_assoc:
  "add_fp exact_arithmetic (add_fp exact_arithmetic a b) c
     = add_fp exact_arithmetic a (add_fp exact_arithmetic b c)"
  by (cases a; cases b; cases c) simp_all

lemma add_exact_zero [simp]:
  "add_fp exact_arithmetic (Fin 0) a = a" "add_fp exact_arithmetic a (Fin 0) = a"
  by (cases a; simp)+

lemma foldl_add_exact_start:
  "foldl (add_fp exact_arithmetic) a xs
     = add_fp exact_arithmetic a (foldl (add_fp exact_arithmetic) (Fin 0) xs)"
proof (induction xs arbitrary: a)
  case Nil
  show ?case by simp
next
  case (Cons x xs)
  have "foldl (add_fp exact_arithmetic) a (x # xs)
          = add_fp exact_arithmetic (add_fp exact_arithmetic a x)
              (foldl (add_fp exact_arithmetic) (Fin 0) xs)"
    using Cons.IH [of "add_fp exact_arithmetic a x"] by simp
  also have "\<dots> = add_fp exact_arithmetic a
                     (add_fp exact_arithmetic x (foldl (add_fp exact_arithmetic) (Fin 0) xs))"
    by (rule add_exact_assoc)
  also have "add_fp exact_arithmetic x (foldl (add_fp exact_arithmetic) (Fin 0) xs)
               = foldl (add_fp exact_arithmetic) (Fin 0) (x # xs)"
    using Cons.IH [of x] by simp
  finally show ?case .
qed

lemma log_sum_exact:
  "log_sum exact_arithmetic v
     = foldl (add_fp exact_arithmetic) (Fin 0) (map (log_fp exact_arithmetic) v)"
  by (cases v) (simp_all add: log_sum_def)

lemma log_det_fold:
  "foldl (\<lambda>logDet cg. add_fp exact_arithmetic logDet
                        (log_sum exact_arithmetic (diagonal (get_R cg)))) a bn
     = add_fp exact_arithmetic a
         (foldl (add_fp exact_arithmetic) (Fin 0)
            (map (log_fp exact_arithmetic) (bn_diagonals bn)))"
proof (induction bn arbitrary: a)
  case Nil
  then show ?case by (simp add: bn_diagonals_def)
next
  case (Cons cg bn)
  let ?add = "add_fp exact_arithmetic"
  let ?v = "map (log_fp exact_arithmetic) (diagonal (get_R cg))"
    and ?w = "map (log_fp exact_arithmetic) (bn_diagonals bn)"
  have split: "map (log_fp exact_arithmetic) (bn_diagonals (cg # bn)) = ?v @ ?w"
    by (simp add: bn_diagonals_def)
  have "foldl ?add (Fin 0) (?v @ ?w) = foldl ?add (foldl ?add (Fin 0) ?v) ?w"
    by simp
  also have "\<dots> = ?add (foldl ?add (Fin 0) ?v) (foldl ?add (Fin 0) ?w)"
    by (rule foldl_add_exact_start)
  finally have "?add a (foldl ?add (Fin 0) (?v @ ?w))
      = ?add (?add a (log_sum exact_arithmetic (diagonal (get_R cg)))) (foldl ?add (Fin 0) ?w)"
    by (simp add: add_exact_assoc log_sum_exact)
  then show ?case
    unfolding split
    using Cons.IH [of "?add a (log_sum exact_arithmetic (diagonal (get_R cg)))"] by simp
qed

lemma diagonals_example: "bn_diagonals [example_conditional] = [1, 5]"
  by (simp add: bn_diagonals_def example_conditional_def get_R_def diagonal_def ncols_def
      block_offset_def)

lemma diagonals_negative: "bn_diagonals [negative_conditional] = [- 1]"
  by (simp add: bn_diagonals_def negative_conditional_def get_R_def diagonal_def ncols_def
      block_offset_def)

text \<open>
  C6, as amended. \<^verbatim>\<open>determinant\<close> is the exponential of the sum of the logarithms of
  the diagonal entries of the \<open>R\<close> matrices, in the floating-point arithmetic of the
  machine. Whatever that arithmetic, a Bayes net with a negative diagonal entry gives not
  a number, since the logarithm of the entry is not a number. For a Bayes net with no
  negative diagonal entry the result in the exact arithmetic is the product of the
  diagonal entries (a zero entry gives minus infinity, whose exponential is zero); in a
  rounding arithmetic it is this product only up to the rounding and the overflow of the
  sums, the logarithms and the exponential.
\<close>

theorem determinant_product:
  "(list_ex (\<lambda>r. r < 0) (bn_diagonals bayesNet) \<longrightarrow> determinant fp bayesNet = NaN)
   \<and> (list_all (\<lambda>r. 0 \<le> r) (bn_diagonals bayesNet) \<longrightarrow>
        determinant exact_arithmetic bayesNet = Fin (prod_list (bn_diagonals bayesNet)))"
proof (intro conjI impI)
  assume "list_ex (\<lambda>r. r < 0) (bn_diagonals bayesNet)"
  then have "\<exists>r \<in> set (bn_diagonals bayesNet). r < 0"
    by (simp add: list_ex_iff)
  then show "determinant fp bayesNet = NaN"
    by (simp add: determinant_def log_det_negative)
next
  assume "list_all (\<lambda>r. 0 \<le> r) (bn_diagonals bayesNet)"
  then show "determinant exact_arithmetic bayesNet = Fin (prod_list (bn_diagonals bayesNet))"
    by (simp add: determinant_def log_det_fold exp_log_sum)
qed

text \<open>
  An arithmetic in which every sum, logarithm and exponential overflows, to run the first
  part on an arithmetic other than the exact one; and the example conditional, whose
  diagonal is \<open>(1, 5)\<close>, for the second part.
\<close>

theorem determinant_product_witness:
  "list_ex (\<lambda>r. r < 0) (bn_diagonals [negative_conditional])
   \<and> determinant \<lparr> fp_add = (\<lambda>a b. PInf), fp_log = (\<lambda>x. PInf), fp_exp = (\<lambda>x. PInf) \<rparr>
       [negative_conditional] = NaN
   \<and> list_all (\<lambda>r. 0 \<le> r) (bn_diagonals [example_conditional])
   \<and> determinant exact_arithmetic [example_conditional] = Fin 5"
proof -
  have h1: "list_ex (\<lambda>r. r < 0) (bn_diagonals [negative_conditional])"
    by (simp add: diagonals_negative)
  have h2: "list_all (\<lambda>r. 0 \<le> r) (bn_diagonals [example_conditional])"
    by (simp add: diagonals_example)
  from determinant_product [of "[negative_conditional]", THEN conjunct1] h1
  have r1: "determinant \<lparr> fp_add = (\<lambda>a b. PInf), fp_log = (\<lambda>x. PInf), fp_exp = (\<lambda>x. PInf) \<rparr>
              [negative_conditional] = NaN"
    by blast
  from determinant_product [of "[example_conditional]", THEN conjunct2] h2
  have r2: "determinant exact_arithmetic [example_conditional] = Fin 5"
    by (simp add: diagonals_example)
  from h1 r1 h2 r2 show ?thesis by blast
qed

text \<open>
  For \<open>R = [-1]\<close> the product is \<open>-1\<close> and \<^verbatim>\<open>determinant\<close> returns not a number, in the
  exact arithmetic as in any other.
\<close>

theorem determinant_negative_counterexample:
  "determinant exact_arithmetic [negative_conditional]
     \<noteq> Fin (prod_list (bn_diagonals [negative_conditional]))"
proof -
  have "\<exists>r \<in> set (bn_diagonals [negative_conditional]). r < 0"
    by (simp add: diagonals_negative)
  then have "foldl (\<lambda>logDet cg. add_fp exact_arithmetic logDet
                                   (log_sum exact_arithmetic (diagonal (get_R cg))))
               (Fin 0) [negative_conditional] = NaN"
    by (rule log_det_negative)
  then have "determinant exact_arithmetic [negative_conditional] = NaN"
    unfolding determinant_def by (simp only: exp_fp.simps)
  then show ?thesis by simp
qed

end
